theory Spec2Isabelle
  imports Main
begin
section \<open>Derivation paths: \<open>parseBip32Path\<close> (common/src/index.ts)\<close>

text \<open>
  A JavaScript string is modelled as a \<^typ>\<open>string\<close>. The parser only ever compares
  characters with \<open>m\<close>, \<open>/\<close>, the apostrophe and the ten decimal digits, so nothing depends
  on the width of a character. The JavaScript numbers of the parser are integers, modelled
  as \<^typ>\<open>int\<close>.
\<close>

record Bip32Path =
  normalized :: string
  indices :: "int list"

text \<open>The three \<open>throw new Error(...)\<close> statements of the parser.\<close>

datatype path_error =
    PathMustStartWithM
  | InvalidChildIndex string
  | NodeIndexOutOfRange

definition HARDENED_OFFSET :: int where
  "HARDENED_OFFSET = 0x80000000"

definition MAX_SAFE_INTEGER :: int where
  "MAX_SAFE_INTEGER = 9007199254740991"

definition apostrophe :: char where
  "apostrophe = CHR 0x27"

definition is_digit :: "char \<Rightarrow> bool" where
  "is_digit c = (c \<in> set ''0123456789'')"

definition digit_value :: "char \<Rightarrow> int" where
  "digit_value c = of_char c - 48"

text \<open>
  \<open>+m1\<close> on a string of decimal digits. JavaScript yields the double nearest to the decimal
  value; the conversion is exact below \<open>2^53\<close> and monotone, so a decimal value above
  \<open>MAX_SAFE_INTEGER\<close> yields a double that is not a safe integer either. The model keeps
  the decimal value itself, and \<open>isSafeInteger\<close> compares it with \<open>MAX_SAFE_INTEGER\<close>:
  both take the same branch of the range check, and every index that is returned is exact.
\<close>

definition toNumber :: "string \<Rightarrow> int" where
  "toNumber ds = foldl (\<lambda>n c. 10 * n + digit_value c) 0 ds"

definition isSafeInteger :: "int \<Rightarrow> bool" where
  "isSafeInteger n = (- MAX_SAFE_INTEGER \<le> n \<and> n \<le> MAX_SAFE_INTEGER)"

text \<open>\<open>/^m/.test(path)\<close> and \<open>/^m$/.test(path)\<close> (no flag: \<open>$\<close> is the end of the input).\<close>

fun test_starts_m :: "string \<Rightarrow> bool" where
  "test_starts_m [] = False"
| "test_starts_m (c # cs) = (c = CHR ''m'')"

definition test_only_m :: "string \<Rightarrow> bool" where
  "test_only_m path = (path = ''m'')"

text \<open>\<open>path.replace(/^m\//, '')\<close>: a leading \<open>m/\<close> is removed, any other string is unchanged.\<close>

fun replace_root :: "string \<Rightarrow> string" where
  "replace_root (c # d # rest) = (if c = CHR ''m'' \<and> d = CHR ''/'' then rest else c # d # rest)"
| "replace_root path = path"

text \<open>\<open>s.split(sep)\<close> for a one-character separator; the empty string gives one empty part.\<close>

fun split_on :: "char \<Rightarrow> string \<Rightarrow> string list" where
  "split_on sep [] = [[]]"
| "split_on sep (c # cs) =
     (let parts = split_on sep cs
      in if c = sep then [] # parts else (c # hd parts) # tl parts)"

text \<open>
  \<open>/^(\d+)('?)$/.exec(segment)\<close>: the two capture groups on a match, \<open>None\<close> for \<open>null\<close>.
  The greedy \<open>\d+\<close> takes every leading digit; a shorter match would leave a digit where
  only an apostrophe or the end of the input is accepted.
\<close>

definition exec_segment :: "string \<Rightarrow> (string \<times> string) option" where
  "exec_segment segment =
     (let m1 = takeWhile is_digit segment; m2 = dropWhile is_digit segment
      in if m1 \<noteq> [] \<and> (m2 = [] \<or> m2 = [apostrophe]) then Some (m1, m2) else None)"

text \<open>The callback of \<open>parts.map\<close>.\<close>

definition parse_segment :: "string \<Rightarrow> path_error + int" where
  "parse_segment segment =
     (case exec_segment segment of
        None \<Rightarrow> Inl (InvalidChildIndex segment)
      | Some (m1, m2) \<Rightarrow>
          (let idx = toNumber m1
           in if \<not> isSafeInteger idx \<or> idx \<ge> HARDENED_OFFSET then Inl NodeIndexOutOfRange
              else if m2 = [apostrophe] then Inr (idx + HARDENED_OFFSET)
              else Inr idx))"

text \<open>\<open>parts.map(...)\<close> with a callback that may throw: the first failing segment decides.\<close>

fun map_segments :: "string list \<Rightarrow> path_error + int list" where
  "map_segments [] = Inr []"
| "map_segments (segment # parts) =
     (case parse_segment segment of
        Inl e \<Rightarrow> Inl e
      | Inr idx \<Rightarrow>
          (case map_segments parts of
             Inl e \<Rightarrow> Inl e
           | Inr idxs \<Rightarrow> Inr (idx # idxs)))"

definition parseBip32Path :: "string \<Rightarrow> path_error + Bip32Path" where
  "parseBip32Path path =
     (if \<not> test_starts_m path then Inl PathMustStartWithM
      else if test_only_m path then Inr \<lparr>normalized = [], indices = []\<rparr>
      else
        (let normalized = replace_root path;
             parts = split_on (CHR ''/'') normalized
         in case map_segments parts of
              Inl e \<Rightarrow> Inl e
            | Inr idxs \<Rightarrow> Inr \<lparr>normalized = normalized, indices = idxs\<rparr>))"

subsection \<open>The parser as the specification words it\<close>

text \<open>
  The specification knows two failures. \<open>classify\<close> sends each error of the code to the
  failure the specification names for it.
\<close>

datatype spec_error = InvalidPathFormat | IndexOutOfRange

fun classify :: "path_error \<Rightarrow> spec_error" where
  "classify PathMustStartWithM = InvalidPathFormat"
| "classify (InvalidChildIndex segment) = InvalidPathFormat"
| "classify NodeIndexOutOfRange = IndexOutOfRange"

text \<open>The value of a digit string, least significant digit first.\<close>

primrec value_lsd :: "string \<Rightarrow> int" where
  "value_lsd [] = 0"
| "value_lsd (c # cs) = digit_value c + 10 * value_lsd cs"

definition spec_hardened :: "string \<Rightarrow> bool" where
  "spec_hardened segment = (segment \<noteq> [] \<and> last segment = apostrophe)"

definition spec_digits :: "string \<Rightarrow> string" where
  "spec_digits segment = (if spec_hardened segment then butlast segment else segment)"

text \<open>
  One segment: one or more decimal digits, optionally followed by a single apostrophe;
  the value a safe integer strictly below \<open>0x80000000\<close>; the apostrophe adds \<open>0x80000000\<close>.
\<close>

definition spec_index :: "string \<Rightarrow> spec_error + int" where
  "spec_index segment =
     (let ds = spec_digits segment; n = value_lsd (rev ds)
      in if ds = [] \<or> \<not> list_all is_digit ds then Inl InvalidPathFormat
         else if \<not> (n \<le> 2 ^ 53 - 1 \<and> n < 0x80000000) then Inl IndexOutOfRange
         else Inr (if spec_hardened segment then n + 0x80000000 else n))"

definition spec_indices :: "string list \<Rightarrow> spec_error + int list" where
  "spec_indices segments =
     (case List.find isl (map spec_index segments) of
        Some r \<Rightarrow> Inl (projl r)
      | None \<Rightarrow> Inr (map (projr \<circ> spec_index) segments))"

definition parse_spec :: "string \<Rightarrow> spec_error + Bip32Path" where
  "parse_spec path =
     (if take 1 path \<noteq> ''m'' then Inl InvalidPathFormat
      else if path = ''m'' then Inr \<lparr>normalized = [], indices = []\<rparr>
      else
        (let remainder = (if take 2 path = ''m/'' then drop 2 path else path)
         in case spec_indices (split_on (CHR ''/'') remainder) of
              Inl e \<Rightarrow> Inl e
            | Inr idxs \<Rightarrow> Inr \<lparr>normalized = remainder, indices = idxs\<rparr>))"

section \<open>Errors thrown by the device API\<close>

text \<open>
  The code inspects a caught value only through \<open>error?.id\<close> and \<open>error?.statusCode\<close>.
  An absent property is \<open>None\<close>. \<open>Error msg\<close> is \<open>new Error(msg)\<close>, which has neither.
\<close>

record js_error =
  err_id :: "string option"
  statusCode :: "int option"
  message :: string

definition Error :: "string \<Rightarrow> js_error" where
  "Error msg = \<lparr>err_id = None, statusCode = None, message = msg\<rparr>"

text \<open>What calling a method on \<open>undefined\<close> throws.\<close>

definition TypeError :: js_error where
  "TypeError = Error ''Cannot read properties of undefined''"

section \<open>The retry executor: \<open>retry\<close> (common) and \<open>_retry\<close> (the older signers)\<close>

text \<open>
  An operation acts on a state \<open>'s\<close> and either returns or throws. The executor runs on
  that state together with two counters that only it writes: the operations it has
  invoked, and the durations of the \<open>sleep\<close> calls it has awaited.
\<close>

type_synonym ('s, 'r) action = "'s \<Rightarrow> (js_error + 'r) \<times> 's"

record 's exec =
  world :: 's
  attempts :: nat
  pauses :: "nat list"

definition sleep :: "nat \<Rightarrow> 's exec \<Rightarrow> 's exec" where
  "sleep duration x = x\<lparr>pauses := pauses x @ [duration]\<rparr>"

text \<open>
  \<open>if (errorHook !== undefined) errorHook(error)\<close>: the hook is a function of the caller,
  handed the caught object itself. It throws (\<open>Inl\<close> of what it throws) or returns (\<open>Inr\<close>
  of the caught error as the hook leaves it: a hook that only inspects the error returns
  it as it was, a hook that assigns to or deletes one of its properties returns it
  changed), and it may act on the state. What the loop does after the hook has returned,
  it does with the error as the hook leaves it.
\<close>

type_synonym 's error_hook = "js_error \<Rightarrow> 's \<Rightarrow> (js_error + js_error) \<times> 's"

definition run_hook :: "'s error_hook option \<Rightarrow> js_error \<Rightarrow> 's \<Rightarrow> (js_error + js_error) \<times> 's" where
  "run_hook errorHook error s =
     (case errorHook of None \<Rightarrow> (Inr error, s) | Some hook \<Rightarrow> hook error s)"

text \<open>
  The loop \<open>for (let i = 0; i < 1200; i++)\<close> of \<open>retry\<close>, entered at \<open>i\<close>. The container is
  read at every attempt (\<open>operation(container.app)\<close>).
\<close>

function retry_from ::
  "nat \<Rightarrow> ('s \<Rightarrow> 'app) \<Rightarrow> 's error_hook option \<Rightarrow> ('app \<Rightarrow> ('s, 'r) action)
     \<Rightarrow> 's exec \<Rightarrow> (js_error + 'r) \<times> 's exec" where
  "retry_from i container errorHook operation x =
     (if i < 1200 then
        (case operation (container (world x)) (world x) of
           (Inr result, s) \<Rightarrow> (Inr result, x\<lparr>world := s, attempts := attempts x + 1\<rparr>)
         | (Inl error, s) \<Rightarrow>
             (case run_hook errorHook error s of
                (Inl thrown, s1) \<Rightarrow> (Inl thrown, x\<lparr>world := s1, attempts := attempts x + 1\<rparr>)
              | (Inr error1, s1) \<Rightarrow>
                  (let x1 = x\<lparr>world := s1, attempts := attempts x + 1\<rparr>
                   in if err_id error1 \<noteq> Some ''TransportLocked'' then (Inl error1, x1)
                      else retry_from (i + 1) container errorHook operation (sleep 100 x1))))
      else (Inl (Error ''timeout''), x))"
  by pat_completeness auto
termination
  by (relation "measure (\<lambda>(i, container, errorHook, operation, x). 1200 - i)") auto

definition retry ::
  "('s \<Rightarrow> 'app) \<Rightarrow> 's error_hook option \<Rightarrow> ('app \<Rightarrow> ('s, 'r) action)
     \<Rightarrow> 's exec \<Rightarrow> (js_error + 'r) \<times> 's exec" where
  "retry container errorHook operation x = retry_from 0 container errorHook operation x"

text \<open>
  \<open>_retry\<close> of the older signers: the same loop on the signer's own \<open>ethApp\<close> field,
  with no hook.
\<close>

function retry_method_from ::
  "nat \<Rightarrow> 'app \<Rightarrow> ('app \<Rightarrow> ('s, 'r) action) \<Rightarrow> 's exec \<Rightarrow> (js_error + 'r) \<times> 's exec" where
  "retry_method_from i ethApp operation x =
     (if i < 1200 then
        (case operation ethApp (world x) of
           (Inr result, s) \<Rightarrow> (Inr result, x\<lparr>world := s, attempts := attempts x + 1\<rparr>)
         | (Inl error, s) \<Rightarrow>
             (let x1 = x\<lparr>world := s, attempts := attempts x + 1\<rparr>
              in if err_id error \<noteq> Some ''TransportLocked'' then (Inl error, x1)
                 else retry_method_from (i + 1) ethApp operation (sleep 100 x1)))
      else (Inl (Error ''timeout''), x))"
  by pat_completeness auto
termination
  by (relation "measure (\<lambda>(i, ethApp, operation, x). 1200 - i)") auto

definition retry_method ::
  "'app \<Rightarrow> ('app \<Rightarrow> ('s, 'r) action) \<Rightarrow> 's exec \<Rightarrow> (js_error + 'r) \<times> 's exec" where
  "retry_method ethApp operation x = retry_method_from 0 ethApp operation x"

text \<open>
  The scenario "the operation is rejected as busy on its first \<open>k\<close> invocations, and the
  hook, if there is one, returns on each rejection and leaves its \<open>id\<close> in place":
  \<open>Some\<close> of the state those \<open>k\<close> invocations leave, \<open>None\<close> when an invocation among them
  does anything else.
\<close>

fun busy_attempts ::
  "('s \<Rightarrow> 'app) \<Rightarrow> 's error_hook option \<Rightarrow> ('app \<Rightarrow> ('s, 'r) action) \<Rightarrow> nat \<Rightarrow> 's
     \<Rightarrow> 's option" where
  "busy_attempts container errorHook operation 0 s = Some s"
| "busy_attempts container errorHook operation (Suc k) s =
     (case operation (container s) s of
        (Inl error, s1) \<Rightarrow>
          (case run_hook errorHook error s1 of
             (Inl thrown, s2) \<Rightarrow> None
           | (Inr error1, s2) \<Rightarrow>
               if err_id error = Some ''TransportLocked'' \<and> err_id error1 = Some ''TransportLocked''
               then busy_attempts container errorHook operation k s2
               else None)
      | (Inr result, s1) \<Rightarrow> None)"

section \<open>The Ethereum signer: \<open>getAddress\<close> and \<open>signTypedData\<close>\<close>

text \<open>
  The device API (\<open>@ledgerhq/hw-app-eth\<close>) and the \<open>ethers\<close> library are external. Each
  device method acts on the state \<open>'d\<close> of the driver and the device and returns or throws.
  The helpers of \<open>ethers\<close> validate their argument and throw on one they refuse: the
  encoder refuses an address field that holds a name, which is why names are resolved
  first. Each helper is a parameter that returns or throws. \<open>resolveNames\<close> stands for the
  asynchronous \<open>TypedDataEncoder.resolveNames\<close> together with the resolver callback the
  signer passes, and \<open>hash\<close> for \<open>TypedDataEncoder.from(types).hash(value)\<close>. The types of a
  typed-data domain, of a type schema, of a value and of a payload are left open.

  The methods modelled are those of the signers built on the common \<open>retry\<close>. The older
  signers have the same \<open>signTypedData\<close> on \<open>_retry\<close>.
\<close>

record account =
  acc_publicKey :: string
  acc_address :: string

record signature =
  sig_r :: string
  sig_s :: string
  sig_v :: int

record ('d, 'pay) Eth =
  eth_getAddress :: "string \<Rightarrow> ('d, account) action"
  eth_signEIP712Message :: "string \<Rightarrow> 'pay \<Rightarrow> ('d, signature) action"
  eth_signEIP712HashedMessage :: "string \<Rightarrow> string \<Rightarrow> string \<Rightarrow> ('d, signature) action"

record ('dom, 'ty, 'val, 'pay) ethers =
  resolveNames :: "'dom \<Rightarrow> 'ty \<Rightarrow> 'val \<Rightarrow> js_error + ('dom \<times> 'val)"
  getPayload :: "'dom \<Rightarrow> 'ty \<Rightarrow> 'val \<Rightarrow> js_error + 'pay"
  hashDomain :: "'dom \<Rightarrow> js_error + string"
  hash :: "'ty \<Rightarrow> 'val \<Rightarrow> js_error + string"
  serialized :: "signature \<Rightarrow> js_error + string"
  utils_getAddress :: "string \<Rightarrow> js_error + string"

text \<open>The device methods the two signer methods invoke, with their arguments.\<close>

datatype 'pay call =
    GetAddress string
  | SignEIP712Message string 'pay
  | SignEIP712HashedMessage string string string

text \<open>
  The state the signer methods share: the driver, the static \<open>LedgerSigner.app\<close>
  (\<open>None\<close> while it is \<open>undefined\<close>), the module's \<open>addressCache\<close>, and the history of
  the device methods invoked so far, which nothing reads.
\<close>

record ('d, 'pay) session =
  driver :: 'd
  app :: "nat option"
  addressCache :: "string \<Rightarrow> string option"
  calls :: "'pay call list"

text \<open>
  \<open>(eth) => eth.method(...)\<close>: on \<open>undefined\<close> the property access throws, otherwise the
  device method runs.
\<close>

definition invoke ::
  "'pay call \<Rightarrow> ('d, 'r) action \<Rightarrow> nat option \<Rightarrow> (('d, 'pay) session, 'r) action" where
  "invoke c method eth s =
     (case eth of
        None \<Rightarrow> (Inl TypeError, s)
      | Some handle \<Rightarrow>
          (case method (driver s) of
             (outcome, d) \<Rightarrow> (outcome, s\<lparr>driver := d, calls := calls s @ [c]\<rparr>)))"

text \<open>The hook of \<open>LedgerSigner.retry\<close> and that executor, on the static container.\<close>

definition ethErrorHook :: "'s error_hook" where
  "ethErrorHook error s =
     (if statusCode error = Some 27404
      then (Inl (Error ''Ledger device is not running Ethereum App''), s)
      else (Inr error, s))"

definition LedgerSigner_retry ::
  "(nat option \<Rightarrow> (('d, 'pay) session, 'r) action)
     \<Rightarrow> ('d, 'pay) session exec \<Rightarrow> (js_error + 'r) \<times> ('d, 'pay) session exec" where
  "LedgerSigner_retry operation x = retry app (Some ethErrorHook) operation x"

definition getAddress ::
  "('dom, 'ty, 'val, 'pay) ethers \<Rightarrow> ('d, 'pay) Eth \<Rightarrow> string
     \<Rightarrow> ('d, 'pay) session exec \<Rightarrow> (js_error + string) \<times> ('d, 'pay) session exec" where
  "getAddress lib dev path x =
     (case addressCache (world x) path of
        Some cachedAddress \<Rightarrow> (Inr cachedAddress, x)
      | None \<Rightarrow>
          (case LedgerSigner_retry (invoke (GetAddress path) (eth_getAddress dev path)) x of
             (Inl error, x1) \<Rightarrow> (Inl error, x1)
           | (Inr account, x1) \<Rightarrow>
               (case utils_getAddress lib (acc_address account) of
                  Inl error \<Rightarrow> (Inl error, x1)
                | Inr address \<Rightarrow>
                    (Inr address,
                     x1\<lparr>world := (world x1)
                           \<lparr>addressCache := (addressCache (world x1))(path \<mapsto> address)\<rparr>\<rparr>))))"

text \<open>\<open>sig.r = "0x" + sig.r; sig.s = "0x" + sig.s; return Signature.from(sig).serialized\<close>\<close>

definition normalize_signature ::
  "('dom, 'ty, 'val, 'pay) ethers \<Rightarrow> signature \<Rightarrow> js_error + string" where
  "normalize_signature lib sig =
     serialized lib (sig\<lparr>sig_r := ''0x'' @ sig_r sig, sig_s := ''0x'' @ sig_s sig\<rparr>)"

text \<open>
  \<open>signTypedData\<close>. The \<open>try\<close> block holds the direct request alone. The \<open>catch\<close> block
  rethrows an error whose status is not 27904; otherwise it hashes the \<open>domain\<close> and the
  \<open>value\<close> it was called with, not the populated ones, and what either hashing throws
  leaves the method before the hashed request is made.
\<close>

definition signTypedData ::
  "('dom, 'ty, 'val, 'pay) ethers \<Rightarrow> ('d, 'pay) Eth \<Rightarrow> string \<Rightarrow> 'dom \<Rightarrow> 'ty \<Rightarrow> 'val
     \<Rightarrow> ('d, 'pay) session exec \<Rightarrow> (js_error + string) \<times> ('d, 'pay) session exec" where
  "signTypedData lib dev path domain types val x =
     (case resolveNames lib domain types val of
        Inl error \<Rightarrow> (Inl error, x)
      | Inr (populated_domain, populated_value) \<Rightarrow>
          (case getPayload lib populated_domain types populated_value of
             Inl error \<Rightarrow> (Inl error, x)
           | Inr payload \<Rightarrow>
               (case LedgerSigner_retry
                       (invoke (SignEIP712Message path payload)
                          (eth_signEIP712Message dev path payload)) x of
                  (Inr sig, x1) \<Rightarrow> (normalize_signature lib sig, x1)
                | (Inl error, x1) \<Rightarrow>
                    if statusCode error \<noteq> Some 27904 then (Inl error, x1)
                    else
                      (case hashDomain lib domain of
                         Inl thrown \<Rightarrow> (Inl thrown, x1)
                       | Inr domainHash \<Rightarrow>
                           (case hash lib types val of
                              Inl thrown \<Rightarrow> (Inl thrown, x1)
                            | Inr valueHash \<Rightarrow>
                                (case LedgerSigner_retry
                                        (invoke
                                           (SignEIP712HashedMessage path (drop 2 domainHash)
                                              (drop 2 valueHash))
                                           (eth_signEIP712HashedMessage dev path
                                              (drop 2 domainHash) (drop 2 valueHash))) x1 of
                                   (Inr sig, x2) \<Rightarrow> (normalize_signature lib sig, x2)
                                 | (Inl error2, x2) \<Rightarrow> (Inl error2, x2)))))))"

text \<open>The device methods invoked between two states of a run.\<close>

definition new_calls ::
  "('d, 'pay) session exec \<Rightarrow> ('d, 'pay) session exec \<Rightarrow> 'pay call list" where
  "new_calls x x1 = drop (length (calls (world x))) (calls (world x1))"

fun is_hashed_call :: "'pay call \<Rightarrow> bool" where
  "is_hashed_call (SignEIP712HashedMessage path domainHash valueHash) = True"
| "is_hashed_call c = False"

section \<open>The Solana signer: \<open>getAddress\<close>\<close>

text \<open>
  The Solana signer keeps the same static \<open>app\<close> and its own \<open>addressCache\<close> of buffers; its
  executor is \<open>retry(this)\<close>, without a hook. A buffer is the string of its bytes, and
  \<open>Buffer.copyBytesFrom\<close> gives a buffer with the same bytes.
\<close>

record 'd Solana =
  sol_getAddress :: "string \<Rightarrow> ('d, string) action"

definition copyBytesFrom :: "string \<Rightarrow> string" where
  "copyBytesFrom buffer = buffer"

definition solana_getAddress ::
  "'d Solana \<Rightarrow> string \<Rightarrow> ('d, 'pay) session exec
     \<Rightarrow> (js_error + string) \<times> ('d, 'pay) session exec" where
  "solana_getAddress dev path x =
     (case addressCache (world x) path of
        Some cachedAddress \<Rightarrow> (Inr (copyBytesFrom cachedAddress), x)
      | None \<Rightarrow>
          (case retry app None (invoke (GetAddress path) (sol_getAddress dev path)) x of
             (Inl error, x1) \<Rightarrow> (Inl error, x1)
           | (Inr address, x1) \<Rightarrow>
               (Inr (copyBytesFrom address),
                x1\<lparr>world := (world x1)
                      \<lparr>addressCache := (addressCache (world x1))(path \<mapsto> address)\<rparr>\<rparr>)))"

section \<open>The shared device session: \<open>create\<close>\<close>

text \<open>
  \<open>create\<close> is an \<open>async\<close> function: it runs without interruption from one \<open>await\<close> to the
  next, and any number of calls may be suspended at once. Each call is a task with a
  program point; the process holds the module's \<open>createEthApp\<close> flag, the static \<open>app\<close>
  and the tasks. Three fields are history that the code never reads: the number of times
  \<open>Transport.open\<close> has been invoked, whether \<open>getAppConfiguration\<close> has succeeded, and the
  task that found the flag unset. The Ethereum signers pass \<open>this.app\<close> and the path to the
  constructor; the Solana signer passes the path only and runs the same protocol.
\<close>

record signer =
  signer_app :: "nat option"
  signer_path :: string

datatype create_failure =
    ParseFailed path_error
  | Thrown js_error

datatype task =
    NotStarted string
  | AwaitOpen string
  | AwaitConfig string
  | AwaitSleep nat string
  | Returned signer
  | Threw create_failure

record process =
  createEthApp :: bool
  static_app :: "nat option"
  tasks :: "nat \<Rightarrow> task"
  opened :: nat
  live :: bool
  initializer :: "nat option"

definition init :: "(nat \<Rightarrow> string) \<Rightarrow> process" where
  "init paths =
     \<lparr>createEthApp = False, static_app = None, tasks = (\<lambda>tid. NotStarted (paths tid)),
      opened = 0, live = False, initializer = None\<rparr>"

definition set_task :: "nat \<Rightarrow> task \<Rightarrow> process \<Rightarrow> process" where
  "set_task tid t g = g\<lparr>tasks := (tasks g)(tid := t)\<rparr>"

definition open_timeout :: js_error where
  "open_timeout = Error ''Timed out while waiting for transport to open.''"

text \<open>
  Task \<open>tid\<close> runs to its next \<open>await\<close>. From \<open>NotStarted\<close> this is the call itself, up to
  the first \<open>await\<close>; from the other points the awaited promise has been fulfilled: the
  transport is open, the configuration query has answered, or the 100 milliseconds have
  passed. The transport \<open>Transport.open\<close> returns is named by the number of the
  invocation, and \<open>new Eth(transport)\<close> by its transport.
\<close>

definition resume :: "nat \<Rightarrow> process \<Rightarrow> process" where
  "resume tid g =
     (case tasks g tid of
        NotStarted path \<Rightarrow>
          (case parseBip32Path path of
             Inl e \<Rightarrow> set_task tid (Threw (ParseFailed e)) g
           | Inr parsed \<Rightarrow>
               if \<not> createEthApp g then
                 set_task tid (AwaitOpen (normalized parsed))
                   (g\<lparr>createEthApp := True, opened := opened g + 1, initializer := Some tid\<rparr>)
               else if static_app g = None then
                 set_task tid (AwaitSleep 0 (normalized parsed)) g
               else
                 set_task tid
                   (Returned \<lparr>signer_app = static_app g, signer_path = normalized parsed\<rparr>) g)
      | AwaitOpen path \<Rightarrow>
          set_task tid (AwaitConfig path) (g\<lparr>static_app := Some (opened g)\<rparr>)
      | AwaitConfig path \<Rightarrow>
          set_task tid (Returned \<lparr>signer_app = static_app g, signer_path = path\<rparr>)
            (g\<lparr>live := True\<rparr>)
      | AwaitSleep i path \<Rightarrow>
          if static_app g \<noteq> None then
            set_task tid (Returned \<lparr>signer_app = static_app g, signer_path = path\<rparr>) g
          else if i = 1199 then set_task tid (Threw (Thrown open_timeout)) g
          else set_task tid (AwaitSleep (i + 1) path) g
      | Returned sg \<Rightarrow> g
      | Threw failure \<Rightarrow> g)"

text \<open>
  The promise task \<open>tid\<close> awaits is rejected. Only \<open>Transport.open\<close> and
  \<open>getAppConfiguration\<close> can reject; \<open>create\<close> catches nothing.
\<close>

definition reject :: "nat \<Rightarrow> js_error \<Rightarrow> process \<Rightarrow> process" where
  "reject tid error g =
     (case tasks g tid of
        AwaitOpen path \<Rightarrow> set_task tid (Threw (Thrown error)) g
      | AwaitConfig path \<Rightarrow> set_task tid (Threw (Thrown error)) g
      | NotStarted path \<Rightarrow> g
      | AwaitSleep i path \<Rightarrow> g
      | Returned sg \<Rightarrow> g
      | Threw failure \<Rightarrow> g)"

datatype event = Resume nat | Reject nat js_error

fun step :: "event \<Rightarrow> process \<Rightarrow> process" where
  "step (Resume tid) g = resume tid g"
| "step (Reject tid error) g = reject tid error g"

text \<open>A schedule is the order in which the event loop runs the tasks.\<close>

definition run :: "event list \<Rightarrow> process \<Rightarrow> process" where
  "run schedule g = foldl (\<lambda>g ev. step ev g) g schedule"

text \<open>The point a task that started while the flag was set and \<open>app\<close> stayed unset has
  reached after being resumed \<open>n\<close> times.\<close>

definition polling_point :: "string \<Rightarrow> string \<Rightarrow> nat \<Rightarrow> task" where
  "polling_point path normalized_path n =
     (if n = 0 then NotStarted path
      else if n \<le> 1200 then AwaitSleep (n - 1) normalized_path
      else Threw (Thrown open_timeout))"

section \<open>Invariants of the session and example inputs\<close>

text \<open>
  A task has entered the initialising branch when it is past the flag test on the side
  that opens the transport, or has finished.
\<close>

fun entered :: "task \<Rightarrow> bool" where
  "entered (NotStarted path) = False"
| "entered (AwaitSleep i path) = False"
| "entered t = True"

definition session_inv :: "process \<Rightarrow> bool" where
  "session_inv g =
     (opened g = (if createEthApp g then 1 else 0)
      \<and> (createEthApp g \<longleftrightarrow> initializer g \<noteq> None)
      \<and> (static_app g = None \<or> static_app g = Some 1)
      \<and> (static_app g \<noteq> None \<longrightarrow> createEthApp g)
      \<and> (\<forall>tid. initializer g = Some tid \<longrightarrow> entered (tasks g tid))
      \<and> (\<forall>tid path. tasks g tid = AwaitOpen path \<longrightarrow>
            initializer g = Some tid \<and> static_app g = None)
      \<and> (\<forall>tid path. tasks g tid = AwaitConfig path \<longrightarrow>
            initializer g = Some tid \<and> static_app g \<noteq> None)
      \<and> (\<forall>tid sg. tasks g tid = Returned sg \<longrightarrow>
            signer_app sg = static_app g \<and> static_app g \<noteq> None
            \<and> (initializer g = Some tid \<longrightarrow> live g)))"

text \<open>How the tasks and the flag relate to the calls a schedule has started.\<close>

definition started_inv :: "(nat \<Rightarrow> string) \<Rightarrow> event list \<Rightarrow> process \<Rightarrow> bool" where
  "started_inv paths schedule g =
     ((\<forall>tid. if Resume tid \<in> set schedule then (\<forall>path. tasks g tid \<noteq> NotStarted path)
             else tasks g tid = NotStarted (paths tid))
      \<and> (createEthApp g \<longleftrightarrow>
           (\<exists>tid parsed. Resume tid \<in> set schedule \<and> parseBip32Path (paths tid) = Inr parsed)))"

text \<open>The flag is set, \<open>app\<close> is unset, and no task is left that could set it.\<close>

definition stuck :: "process \<Rightarrow> bool" where
  "stuck g = (createEthApp g \<and> static_app g = None \<and> (\<forall>t path. tasks g t \<noteq> AwaitOpen path))"

text \<open>The point of a task that started after \<open>app\<close> was set, resumed \<open>n\<close> times.\<close>

definition immediate_point :: "string \<Rightarrow> string \<Rightarrow> nat \<Rightarrow> task" where
  "immediate_point path normalized_path n =
     (if n = 0 then NotStarted path
      else Returned \<lparr>signer_app = Some 1, signer_path = normalized_path\<rparr>)"

text \<open>
  A hook that only inspects the error: whether it throws or returns, the state is as it
  found it, and when it returns, so is the error. The absence of a hook counts as one.
\<close>

definition inspecting :: "'s error_hook option \<Rightarrow> bool" where
  "inspecting errorHook =
     (\<forall>error s. case run_hook errorHook error s of
                  (Inl thrown, s1) \<Rightarrow> s1 = s
                | (Inr left, s1) \<Rightarrow> s1 = s \<and> left = error)"

text \<open>
  Example inputs: the busy rejection of the transport, operations that count their
  invocations, a hook that throws on every error, a hook that deletes the \<open>id\<close> of the
  error it is handed, a hook that sets it to the busy id, the default Ethereum path, the
  path format the Solana signer documents, and a device that answers "locked".
\<close>

definition busy_error :: js_error where
  "busy_error =
     \<lparr>err_id = Some ''TransportLocked'', statusCode = None, message = ''Ledger Device is busy''\<rparr>"

definition busy_until :: "nat \<Rightarrow> unit \<Rightarrow> (nat, string) action" where
  "busy_until n handle s = (if s < n then (Inl busy_error, s + 1) else (Inr ''ok'', s + 1))"

definition always_busy :: "unit \<Rightarrow> (nat, string) action" where
  "always_busy handle s = (Inl busy_error, s + 1)"

definition failing_with :: "js_error \<Rightarrow> unit \<Rightarrow> (nat, string) action" where
  "failing_with error handle s = (Inl error, s + 1)"

definition failing_until :: "nat \<Rightarrow> js_error \<Rightarrow> unit \<Rightarrow> (nat, string) action" where
  "failing_until n error handle s = (if s < n then (Inl error, s + 1) else (Inr ''ok'', s + 1))"

definition rewriting_hook :: "nat error_hook" where
  "rewriting_hook error s = (Inl (Error ''rewritten''), s)"

definition clearing_hook :: "nat error_hook" where
  "clearing_hook error s = (Inr (error\<lparr>err_id := None\<rparr>), s)"

definition labelling_hook :: "nat error_hook" where
  "labelling_hook error s = (Inr (error\<lparr>err_id := Some ''TransportLocked''\<rparr>), s)"

definition start :: "nat exec" where
  "start = \<lparr>world = 0, attempts = 0, pauses = []\<rparr>"

definition default_paths :: "nat \<Rightarrow> string" where
  "default_paths tid = ''m/44'/60'/0'/0/0''"

definition solana_paths :: "nat \<Rightarrow> string" where
  "solana_paths tid = ''44'/501'/0'/0'' @ [CHR 0x27]"

definition device_locked :: js_error where
  "device_locked = \<lparr>err_id = None, statusCode = Some 21781, message = ''Locked device''\<rparr>"

text \<open>
  The hashed request of the fallback path for a domain and a value: the request, or what
  the library throws while the two hashes are computed.
\<close>

definition fallback_request ::
  "('dom, 'ty, 'val, 'pay) ethers \<Rightarrow> string \<Rightarrow> 'dom \<Rightarrow> 'ty \<Rightarrow> 'val \<Rightarrow> js_error + 'pay call" where
  "fallback_request lib path domain types val =
     (case hashDomain lib domain of
        Inl thrown \<Rightarrow> Inl thrown
      | Inr domainHash \<Rightarrow>
          (case hash lib types val of
             Inl thrown \<Rightarrow> Inl thrown
           | Inr valueHash \<Rightarrow>
               Inr (SignEIP712HashedMessage path (drop 2 domainHash) (drop 2 valueHash))))"

text \<open>
  Example inputs. A library over strings in the manner of \<open>ethers\<close>, in which a domain is
  its verifying contract and a value is one address field. An address is a string of
  hexadecimal digits, with or without the prefix \<open>0x\<close> (length and checksum are left out).
  Name resolution leaves a prefixed address as it is and asks the provider for anything
  else; the encoder takes an address in either form, encodes the prefixed form, and
  refuses anything else. The provider knows two names; it also answers for two
  unprefixed addresses, one with another address and one with the address itself. Then a
  device with old firmware whose transport is busy on the first address request, the same
  device locked, and a connected session.
\<close>

definition is_hex :: "char \<Rightarrow> bool" where
  "is_hex c = (c \<in> set ''0123456789abcdefABCDEF'')"

definition hex_digits :: "string \<Rightarrow> bool" where
  "hex_digits s = (s \<noteq> [] \<and> list_all is_hex s)"

definition isHexString :: "string \<Rightarrow> bool" where
  "isHexString s = (take 2 s = ''0x'' \<and> hex_digits (drop 2 s))"

definition invalid_address :: js_error where
  "invalid_address = Error ''invalid address''"

definition example_getAddress :: "string \<Rightarrow> js_error + string" where
  "example_getAddress s =
     (if isHexString s then Inr s
      else if hex_digits s then Inr (''0x'' @ s)
      else Inl invalid_address)"

definition example_provider :: "string \<Rightarrow> string option" where
  "example_provider name =
     (if name = ''alice.eth'' then Some ''0xA11CE''
      else if name = ''vault.eth'' then Some ''0xBA5E''
      else if name = ''B0B'' then Some ''0xA11CE''
      else if name = ''CAFE'' then Some ''0xCAFE''
      else None)"

definition example_resolver :: "string \<Rightarrow> js_error + string" where
  "example_resolver field =
     (if isHexString field then Inr field
      else case example_provider field of
             Some address \<Rightarrow> Inr address
           | None \<Rightarrow> Inl (Error ''unconfigured name''))"

definition example_lib :: "(string, string, string, string) ethers" where
  "example_lib =
     \<lparr>resolveNames = (\<lambda>domain types val.
        case example_resolver domain of
          Inl error \<Rightarrow> Inl error
        | Inr populated_domain \<Rightarrow>
            (case example_resolver val of
               Inl error \<Rightarrow> Inl error
             | Inr populated_value \<Rightarrow> Inr (populated_domain, populated_value))),
      getPayload = (\<lambda>domain types val.
        case example_getAddress domain of
          Inl error \<Rightarrow> Inl error
        | Inr contract \<Rightarrow>
            (case example_getAddress val of
               Inl error \<Rightarrow> Inl error
             | Inr address \<Rightarrow> Inr (contract @ ''|'' @ types @ ''|'' @ address))),
      hashDomain = (\<lambda>domain.
        case example_getAddress domain of
          Inl error \<Rightarrow> Inl error
        | Inr contract \<Rightarrow> Inr (''0x'' @ contract)),
      hash = (\<lambda>types val.
        case example_getAddress val of
          Inl error \<Rightarrow> Inl error
        | Inr address \<Rightarrow> Inr (''0x'' @ types @ ''|'' @ address)),
      serialized = (\<lambda>sig. Inr (sig_r sig @ drop 2 (sig_s sig))),
      utils_getAddress = example_getAddress\<rparr>"

definition unsupported :: js_error where
  "unsupported = \<lparr>err_id = None, statusCode = Some 27904, message = ''INS_NOT_SUPPORTED''\<rparr>"

definition old_firmware :: "(nat, string) Eth" where
  "old_firmware =
     \<lparr>eth_getAddress = (\<lambda>path d.
        if d = 0 then (Inl busy_error, d + 1)
        else (Inr \<lparr>acc_publicKey = ''04ab'', acc_address = ''0xabc''\<rparr>, d + 1)),
      eth_signEIP712Message = (\<lambda>path payload d. (Inl unsupported, d + 1)),
      eth_signEIP712HashedMessage = (\<lambda>path domainHash valueHash d.
        (Inr \<lparr>sig_r = ''aa'', sig_s = ''bb'', sig_v = 27\<rparr>, d + 1))\<rparr>"

definition locked_firmware :: "(nat, string) Eth" where
  "locked_firmware =
     old_firmware\<lparr>eth_signEIP712Message := (\<lambda>path payload d. (Inl device_locked, d + 1))\<rparr>"

definition connected :: "(nat, string) session exec" where
  "connected =
     \<lparr>world = \<lparr>driver = 0, app = Some 1, addressCache = (\<lambda>path. None), calls = []\<rparr>,
      attempts = 0, pauses = []\<rparr>"

definition busy_once_solana :: "nat Solana" where
  "busy_once_solana =
     \<lparr>sol_getAddress = (\<lambda>path d.
        if d = 0 then (Inl busy_error, d + 1) else (Inr ''pubkey-bytes'', d + 1))\<rparr>"

section \<open>Properties of the path parser\<close>

lemma split_on_nonempty: "split_on sep s \<noteq> []"
  by (induction s) (auto simp: Let_def)

lemma value_lsd_append: "value_lsd (xs @ ys) = value_lsd xs + 10 ^ length xs * value_lsd ys"
  by (induction xs) (auto simp: algebra_simps)

lemma foldl_value_lsd:
  "foldl (\<lambda>n c. 10 * n + digit_value c) a ds = a * 10 ^ length ds + value_lsd (rev ds)"
  by (induction ds arbitrary: a) (auto simp: value_lsd_append algebra_simps)

lemma toNumber_value_lsd: "toNumber ds = value_lsd (rev ds)"
  by (simp add: toNumber_def foldl_value_lsd)

lemma digit_value_nonneg: "is_digit c \<Longrightarrow> 0 \<le> digit_value c"
  by (auto simp: is_digit_def digit_value_def)

lemma value_lsd_nonneg: "list_all is_digit ds \<Longrightarrow> 0 \<le> value_lsd ds"
  by (induction ds) (auto simp: digit_value_nonneg)

lemma not_digit_apostrophe: "\<not> is_digit apostrophe"
  by (simp add: is_digit_def apostrophe_def)

lemma not_digit_m: "\<not> is_digit (CHR ''m'')"
  by (simp add: is_digit_def)

lemma exec_segment_plain:
  assumes "\<not> spec_hardened segment"
  shows "exec_segment segment =
           (if segment \<noteq> [] \<and> list_all is_digit segment then Some (segment, []) else None)"
proof (cases "list_all is_digit segment")
  case True
  then have tk: "takeWhile is_digit segment = segment" "dropWhile is_digit segment = []"
    by (auto simp: list_all_iff)
  show ?thesis using True by (simp add: exec_segment_def Let_def tk)
next
  case False
  then obtain y ys where d: "dropWhile is_digit segment = y # ys"
    by (cases "dropWhile is_digit segment") (auto simp: list_all_iff)
  have "ys \<noteq> [] \<or> y \<noteq> apostrophe"
  proof (rule ccontr)
    assume "\<not> (ys \<noteq> [] \<or> y \<noteq> apostrophe)"
    then have "dropWhile is_digit segment = [apostrophe]" using d by simp
    then have "segment = takeWhile is_digit segment @ [apostrophe]"
      by (metis takeWhile_dropWhile_id)
    then have "spec_hardened segment"
      by (metis spec_hardened_def snoc_eq_iff_butlast)
    with assms show False by simp
  qed
  then show ?thesis using False d by (auto simp: exec_segment_def)
qed

lemma exec_segment_hardened:
  "exec_segment (ds @ [apostrophe]) =
     (if ds \<noteq> [] \<and> list_all is_digit ds then Some (ds, [apostrophe]) else None)"
proof (cases "list_all is_digit ds")
  case True
  then show ?thesis
    by (auto simp: exec_segment_def list_all_iff not_digit_apostrophe takeWhile_append dropWhile_append)
next
  case False
  then obtain y ys where d: "dropWhile is_digit ds = y # ys"
    by (cases "dropWhile is_digit ds") (auto simp: list_all_iff)
  have ex: "\<exists>x\<in>set ds. \<not> is_digit x" using False by (auto simp: list_all_iff)
  then have "dropWhile is_digit (ds @ [apostrophe]) = dropWhile is_digit ds @ [apostrophe]"
    by (auto simp: dropWhile_append)
  then show ?thesis using False d by (auto simp: exec_segment_def)
qed

lemma parse_segment_spec: "map_sum classify id (parse_segment segment) = spec_index segment"
proof (cases "spec_hardened segment")
  case False
  then have sd: "spec_digits segment = segment" by (simp add: spec_digits_def)
  show ?thesis
  proof (cases "segment \<noteq> [] \<and> list_all is_digit segment")
    case True
    then have "0 \<le> value_lsd (rev segment)" by (simp add: value_lsd_nonneg)
    then show ?thesis using True False
      by (simp add: parse_segment_def spec_index_def sd exec_segment_plain Let_def
          toNumber_value_lsd isSafeInteger_def MAX_SAFE_INTEGER_def HARDENED_OFFSET_def)
  next
    case F: False
    then show ?thesis using False
      by (auto simp: parse_segment_def spec_index_def sd exec_segment_plain Let_def)
  qed
next
  case True
  then obtain ds where seg: "segment = ds @ [apostrophe]"
    by (metis spec_hardened_def append_butlast_last_id)
  have sd: "spec_digits segment = ds" using True seg by (simp add: spec_digits_def)
  show ?thesis
  proof (cases "ds \<noteq> [] \<and> list_all is_digit ds")
    case T: True
    then have "0 \<le> value_lsd (rev ds)" by (simp add: value_lsd_nonneg)
    then show ?thesis using T True sd
      by (simp add: parse_segment_def spec_index_def seg exec_segment_hardened Let_def
          toNumber_value_lsd isSafeInteger_def MAX_SAFE_INTEGER_def HARDENED_OFFSET_def)
  next
    case F: False
    then show ?thesis using True sd
      by (auto simp: parse_segment_def spec_index_def seg exec_segment_hardened Let_def)
  qed
qed

lemma map_segments_spec: "map_sum classify id (map_segments segments) = spec_indices segments"
proof (induction segments)
  case Nil
  show ?case by (simp add: spec_indices_def)
next
  case (Cons s ss)
  have s: "spec_index s = map_sum classify id (parse_segment s)"
    by (simp add: parse_segment_spec)
  show ?case
  proof (cases "parse_segment s")
    case (Inl e)
    then show ?thesis by (simp add: spec_indices_def s)
  next
    case (Inr idx)
    then show ?thesis using Cons.IH [symmetric]
      by (cases "map_segments ss")
         (auto simp: spec_indices_def s split: option.splits)
  qed
qed

lemma test_starts_m_take: "test_starts_m path = (take 1 path = ''m'')"
  by (cases path) auto

lemma replace_root_take:
  "replace_root path = (if take 2 path = ''m/'' then drop 2 path else path)"
  by (induction path rule: replace_root.induct) auto

text \<open>
  Claim C7. \<open>parseBip32Path\<close> computes what the specification describes: an input that
  does not begin with \<open>m\<close> is an invalid path; the input \<open>m\<close> gives the empty normalized
  string and no indices; otherwise a leading \<open>m/\<close> is removed, the remainder is split on
  \<open>/\<close>, every segment must be one or more decimal digits optionally followed by one
  apostrophe (else invalid path), its value must be a safe integer strictly below
  \<open>0x80000000\<close> (else index out of range), an apostrophe adds \<open>0x80000000\<close>, and the
  normalized field is the input without the leading \<open>m/\<close>. The two errors of the code
  that the specification calls an invalid path are identified by \<open>classify\<close>.
\<close>

theorem parseBip32Path_refines_spec:
  "parse_spec path = map_sum classify id (parseBip32Path path)"
proof -
  have "map_sum classify id
          (case map_segments parts of Inl e \<Rightarrow> Inl e
           | Inr idxs \<Rightarrow> Inr \<lparr>normalized = n, indices = idxs\<rparr>) =
        (case spec_indices parts of Inl e \<Rightarrow> Inl e
         | Inr idxs \<Rightarrow> Inr \<lparr>normalized = n, indices = idxs\<rparr>)" for parts n
    unfolding map_segments_spec [symmetric] by (cases "map_segments parts") auto
  then show ?thesis
    by (simp add: parse_spec_def parseBip32Path_def test_starts_m_take test_only_m_def
        replace_root_take Let_def)
qed

lemmas parse_eval = parseBip32Path_def test_only_m_def parse_segment_def exec_segment_def
  is_digit_def apostrophe_def toNumber_def digit_value_def isSafeInteger_def
  MAX_SAFE_INTEGER_def HARDENED_OFFSET_def Let_def

theorem parseBip32Path_refines_spec_witness:
  "parse_spec ''m/44'/60'/0'/0/0'' =
     Inr \<lparr>normalized = ''44'/60'/0'/0/0'', indices = [2147483692, 2147483708, 2147483648, 0, 0]\<rparr>
   \<and> parse_spec ''m/2147483648'' = Inl IndexOutOfRange
   \<and> parse_spec ''m/0x1'' = Inl InvalidPathFormat
   \<and> parse_spec ''44'/60'' = Inl InvalidPathFormat
   \<and> parse_spec ''m'' = Inr \<lparr>normalized = [], indices = []\<rparr>"
proof -
  have "parseBip32Path ''m/44'/60'/0'/0/0'' =
     Inr \<lparr>normalized = ''44'/60'/0'/0/0'', indices = [2147483692, 2147483708, 2147483648, 0, 0]\<rparr>"
    and "parseBip32Path ''m/2147483648'' = Inl NodeIndexOutOfRange"
    and "parseBip32Path ''m/0x1'' = Inl (InvalidChildIndex ''0x1'')"
    and "parseBip32Path ''44'/60'' = Inl PathMustStartWithM"
    and "parseBip32Path ''m'' = Inr \<lparr>normalized = [], indices = []\<rparr>"
    by (simp_all add: parse_eval)
  then show ?thesis by (simp add: parseBip32Path_refines_spec)
qed

text \<open>
  Claim C2 says that parsing the normalized output of a valid path succeeds and gives the
  same indices. The normalized string omits the root marker, and the parser rejects every
  string that does not begin with it: the default Ethereum path parses, its normalized
  form does not.
\<close>

theorem parse_normalized_not_idempotent:
  "parseBip32Path ''m/44'/60'/0'/0/0'' =
     Inr \<lparr>normalized = ''44'/60'/0'/0/0'', indices = [2147483692, 2147483708, 2147483648, 0, 0]\<rparr>
   \<and> parseBip32Path ''44'/60'/0'/0/0'' = Inl PathMustStartWithM"
  by (simp add: parse_eval)

lemma split_on_hd:
  "split_on sep s = x # xs \<Longrightarrow> x \<noteq> [] \<Longrightarrow> s \<noteq> [] \<and> hd s = hd x"
  by (cases s) (auto simp: Let_def split: if_splits)

lemma exec_segment_hd: "exec_segment seg = Some m \<Longrightarrow> seg \<noteq> [] \<and> is_digit (hd seg)"
  by (cases seg) (auto simp: exec_segment_def Let_def split: if_splits)

lemma parse_segment_hd: "parse_segment seg = Inr i \<Longrightarrow> seg \<noteq> [] \<and> is_digit (hd seg)"
  using exec_segment_hd [of seg] by (auto simp: parse_segment_def split: option.splits)

lemma map_segments_hd:
  assumes "map_segments (split_on sep s) = Inr idxs"
  shows "s \<noteq> [] \<and> is_digit (hd s)"
proof -
  obtain x xs where sp: "split_on sep s = x # xs"
    using split_on_nonempty [of sep s] by (cases "split_on sep s") auto
  with assms have "\<exists>i. parse_segment x = Inr i"
    by (auto split: sum.splits)
  then have "x \<noteq> [] \<and> is_digit (hd x)" using parse_segment_hd by blast
  then show ?thesis using split_on_hd [OF sp] by auto
qed

lemma parse_ok_normalized:
  assumes "parseBip32Path p = Inr r" and "p \<noteq> ''m''"
  shows "normalized r \<noteq> [] \<and> is_digit (hd (normalized r)) \<and> p = ''m/'' @ normalized r"
proof -
  from assms have st: "test_starts_m p"
    by (auto simp: parseBip32Path_def split: if_splits)
  from assms obtain idxs where
    ms: "map_segments (split_on (CHR ''/'') (replace_root p)) = Inr idxs"
    and r: "r = \<lparr>normalized = replace_root p, indices = idxs\<rparr>"
    by (auto simp: parseBip32Path_def test_only_m_def Let_def split: if_splits sum.splits)
  have d: "replace_root p \<noteq> [] \<and> is_digit (hd (replace_root p))"
    using map_segments_hd [OF ms] .
  have "p = ''m/'' @ replace_root p"
  proof (cases p)
    case Nil
    then show ?thesis using st by simp
  next
    case (Cons c cs)
    then have c: "c = CHR ''m''" using st by simp
    show ?thesis
    proof (cases cs)
      case Nil
      then show ?thesis using Cons c assms(2) by simp
    next
      case (Cons d' rest)
      then show ?thesis using \<open>p = c # cs\<close> c d not_digit_m
        by (auto split: if_splits)
    qed
  qed
  with d r show ?thesis by simp
qed

text \<open>
  Claim C2, amended. For every valid path other than the bare root \<open>m\<close>, parsing the
  normalized output itself fails with the error for a missing root marker, and parsing
  the normalized output behind the prefix \<open>m/\<close> gives the same normalized string and
  the same indices again.
\<close>

theorem parse_normalized_needs_root:
  assumes "parseBip32Path p = Inr r" and "p \<noteq> ''m''"
  shows "parseBip32Path (normalized r) = Inl PathMustStartWithM
         \<and> parseBip32Path (''m/'' @ normalized r) = Inr r"
proof -
  have n: "normalized r \<noteq> [] \<and> is_digit (hd (normalized r)) \<and> p = ''m/'' @ normalized r"
    using parse_ok_normalized [OF assms] .
  then have "\<not> test_starts_m (normalized r)"
    using not_digit_m by (cases "normalized r") auto
  then show ?thesis using n assms(1) by (simp add: parseBip32Path_def)
qed

theorem parse_normalized_needs_root_witness:
  "parseBip32Path ''m/44'/60'/0'/0/0'' =
     Inr \<lparr>normalized = ''44'/60'/0'/0/0'', indices = [2147483692, 2147483708, 2147483648, 0, 0]\<rparr>
   \<and> ''m/44'/60'/0'/0/0'' \<noteq> ''m''
   \<and> parseBip32Path ''44'/60'/0'/0/0'' = Inl PathMustStartWithM
   \<and> parseBip32Path (''m/'' @ ''44'/60'/0'/0/0'') =
     Inr \<lparr>normalized = ''44'/60'/0'/0/0'', indices = [2147483692, 2147483708, 2147483648, 0, 0]\<rparr>"
proof -
  have h: "parseBip32Path ''m/44'/60'/0'/0/0'' =
     Inr \<lparr>normalized = ''44'/60'/0'/0/0'', indices = [2147483692, 2147483708, 2147483648, 0, 0]\<rparr>"
    by (simp add: parse_eval)
  have n: "''m/44'/60'/0'/0/0'' \<noteq> ''m''" by simp
  show ?thesis using parse_normalized_needs_root [OF h n] h by simp
qed

section \<open>Properties of the retry executor\<close>

declare retry_from.simps [simp del] retry_method_from.simps [simp del]

lemma retry_from_busy_prefix:
  "busy_attempts c h op k (world x) = Some sk \<Longrightarrow> i + k \<le> 1200 \<Longrightarrow>
   retry_from i c h op x =
   retry_from (i + k) c h op
     (x\<lparr>world := sk, attempts := attempts x + k, pauses := pauses x @ replicate k 100\<rparr>)"
proof (induction k arbitrary: i x)
  case 0
  then show ?case by (cases x) simp
next
  case (Suc k)
  from Suc.prems(1) obtain e e1 s0 s1 where
    op: "op (c (world x)) (world x) = (Inl e, s0)"
    and hook: "run_hook h e s0 = (Inr e1, s1)"
    and busy: "err_id e1 = Some ''TransportLocked''"
    and rest: "busy_attempts c h op k s1 = Some sk"
    by (auto split: prod.splits sum.splits if_splits)
  let ?x1 = "sleep 100 (x\<lparr>world := s1, attempts := attempts x + 1\<rparr>)"
  have i: "i < 1200" using Suc.prems(2) by simp
  have step: "retry_from i c h op x = retry_from (i + 1) c h op ?x1"
    by (subst retry_from.simps) (simp add: i op busy hook Let_def)
  have w: "world ?x1 = s1" by (simp add: sleep_def)
  have "retry_from (i + 1) c h op ?x1 =
        retry_from (i + 1 + k) c h op
          (?x1\<lparr>world := sk, attempts := attempts ?x1 + k,
                pauses := pauses ?x1 @ replicate k 100\<rparr>)"
    using Suc.IH [of ?x1 "i + 1"] rest w Suc.prems(2) by simp
  then show ?case using step by (simp add: sleep_def)
qed

lemma retry_success:
  assumes "k < 1200" and "busy_attempts c h op k (world x) = Some sk"
    and "op (c sk) sk = (Inr v, s')"
  shows "retry c h op x =
         (Inr v, x\<lparr>world := s', attempts := attempts x + k + 1,
                   pauses := pauses x @ replicate k 100\<rparr>)"
proof -
  have "retry c h op x = retry_from k c h op
     (x\<lparr>world := sk, attempts := attempts x + k, pauses := pauses x @ replicate k 100\<rparr>)"
    using retry_from_busy_prefix [OF assms(2), of 0] assms(1) by (simp add: retry_def)
  also have "\<dots> = (Inr v, x\<lparr>world := s', attempts := attempts x + k + 1,
                   pauses := pauses x @ replicate k 100\<rparr>)"
    by (subst retry_from.simps) (simp add: assms)
  finally show ?thesis .
qed

lemma retry_timeout:
  assumes "busy_attempts c h op 1200 (world x) = Some sk"
  shows "retry c h op x =
         (Inl (Error ''timeout''), x\<lparr>world := sk, attempts := attempts x + 1200,
                   pauses := pauses x @ replicate 1200 100\<rparr>)"
proof -
  have "retry c h op x = retry_from 1200 c h op
     (x\<lparr>world := sk, attempts := attempts x + 1200, pauses := pauses x @ replicate 1200 100\<rparr>)"
    using retry_from_busy_prefix [OF assms, of 0] by (simp add: retry_def)
  also have "\<dots> = (Inl (Error ''timeout''), x\<lparr>world := sk, attempts := attempts x + 1200,
                   pauses := pauses x @ replicate 1200 100\<rparr>)"
    by (subst retry_from.simps) simp
  finally show ?thesis .
qed

lemma retry_failure:
  assumes "k < 1200" and "busy_attempts c h op k (world x) = Some sk"
    and "op (c sk) sk = (Inl e, s')" and "run_hook h e s' = (r, s'')"
  shows "retry c h op x =
         (case r of
            Inl thrown \<Rightarrow> (Inl thrown, x\<lparr>world := s'', attempts := attempts x + k + 1,
                   pauses := pauses x @ replicate k 100\<rparr>)
          | Inr e1 \<Rightarrow>
             if err_id e1 \<noteq> Some ''TransportLocked''
             then (Inl e1, x\<lparr>world := s'', attempts := attempts x + k + 1,
                   pauses := pauses x @ replicate k 100\<rparr>)
             else retry_from (k + 1) c h op (x\<lparr>world := s'', attempts := attempts x + k + 1,
                   pauses := pauses x @ replicate k 100 @ [100]\<rparr>))"
proof -
  have "retry c h op x = retry_from k c h op
     (x\<lparr>world := sk, attempts := attempts x + k, pauses := pauses x @ replicate k 100\<rparr>)"
    using retry_from_busy_prefix [OF assms(2), of 0] assms(1) by (simp add: retry_def)
  also have "\<dots> = (case r of
            Inl thrown \<Rightarrow> (Inl thrown, x\<lparr>world := s'', attempts := attempts x + k + 1,
                   pauses := pauses x @ replicate k 100\<rparr>)
          | Inr e1 \<Rightarrow>
             if err_id e1 \<noteq> Some ''TransportLocked''
             then (Inl e1, x\<lparr>world := s'', attempts := attempts x + k + 1,
                   pauses := pauses x @ replicate k 100\<rparr>)
             else retry_from (k + 1) c h op (x\<lparr>world := s'', attempts := attempts x + k + 1,
                   pauses := pauses x @ replicate k 100 @ [100]\<rparr>))"
    by (subst retry_from.simps) (simp add: assms Let_def sleep_def split: sum.splits)
  finally show ?thesis .
qed

lemma retry_method_from_eq:
  "retry_method_from i ethApp op x = retry_from i (\<lambda>s. ethApp) None op x"
proof (induction i ethApp op x rule: retry_method_from.induct)
  case (1 i ethApp operation x)
  show ?case
    apply (subst retry_method_from.simps)
    apply (subst retry_from.simps)
    using 1 by (auto simp: run_hook_def Let_def split: prod.splits sum.splits)
qed

lemma retry_method_eq: "retry_method ethApp op x = retry (\<lambda>s. ethApp) None op x"
  by (simp add: retry_method_def retry_def retry_method_from_eq)

lemma always_busy_attempts:
  "busy_attempts (\<lambda>s. ()) None always_busy k s = Some (s + k)"
  by (induction k arbitrary: s) (auto simp: always_busy_def busy_error_def run_hook_def)

text \<open>
  Claim C4, amended. If the operation is rejected as busy (error id \<open>TransportLocked\<close>) on
  exactly \<open>k < 1200\<close> attempts and then succeeds, and the error hook, if there is one,
  returns normally on each of those rejections and leaves the error's id in place, then
  \<open>retry\<close> returns the success value after \<open>k + 1\<close> attempts and exactly \<open>k\<close> pauses of 100
  milliseconds. If the operation is rejected as busy on each of 1200 attempts and the hook
  returns normally on each and leaves the id in place, \<open>retry\<close> fails with the timeout
  error after exactly 1200 attempts and 1200 pauses. The executor \<open>_retry\<close> of the older
  signers has no hook and does both without the proviso.
\<close>

theorem retry_busy_scenarios:
  "(k < 1200 \<and> busy_attempts container errorHook operation k (world x) = Some sk
      \<and> operation (container sk) sk = (Inr result, s1)
    \<longrightarrow> retry container errorHook operation x =
          (Inr result, x\<lparr>world := s1, attempts := attempts x + k + 1,
                          pauses := pauses x @ replicate k 100\<rparr>))
   \<and> (busy_attempts container errorHook operation 1200 (world x) = Some sk
    \<longrightarrow> retry container errorHook operation x =
          (Inl (Error ''timeout''), x\<lparr>world := sk, attempts := attempts x + 1200,
                          pauses := pauses x @ replicate 1200 100\<rparr>))
   \<and> (k < 1200 \<and> busy_attempts (\<lambda>s. ethApp) None operation k (world x) = Some sk
      \<and> operation ethApp sk = (Inr result, s1)
    \<longrightarrow> retry_method ethApp operation x =
          (Inr result, x\<lparr>world := s1, attempts := attempts x + k + 1,
                          pauses := pauses x @ replicate k 100\<rparr>))
   \<and> (busy_attempts (\<lambda>s. ethApp) None operation 1200 (world x) = Some sk
    \<longrightarrow> retry_method ethApp operation x =
          (Inl (Error ''timeout''), x\<lparr>world := sk, attempts := attempts x + 1200,
                          pauses := pauses x @ replicate 1200 100\<rparr>))"
  using retry_success [of k container errorHook operation x sk result s1]
    retry_timeout [of container errorHook operation x sk]
    retry_success [of k "\<lambda>s. ethApp" None operation x sk result s1]
    retry_timeout [of "\<lambda>s. ethApp" None operation x sk]
  by (simp add: retry_method_eq)

theorem retry_busy_scenarios_witness:
  "retry (\<lambda>s. ()) (Some ethErrorHook) (busy_until 2) start =
     (Inr ''ok'', \<lparr>world = 3, attempts = 3, pauses = [100, 100]\<rparr>)
   \<and> retry (\<lambda>s. ()) None always_busy start =
     (Inl (Error ''timeout''), \<lparr>world = 1200, attempts = 1200, pauses = replicate 1200 100\<rparr>)
   \<and> retry_method () (busy_until 2) start =
     (Inr ''ok'', \<lparr>world = 3, attempts = 3, pauses = [100, 100]\<rparr>)
   \<and> retry_method () always_busy start =
     (Inl (Error ''timeout''), \<lparr>world = 1200, attempts = 1200, pauses = replicate 1200 100\<rparr>)"
proof -
  have b2: "busy_attempts (\<lambda>s. ()) (Some ethErrorHook) (busy_until 2) 2 (world start) = Some 2"
    by (simp add: numeral_2_eq_2 busy_until_def busy_error_def run_hook_def
        ethErrorHook_def start_def)
  have b2': "busy_attempts (\<lambda>s. ()) None (busy_until 2) 2 (world start) = Some 2"
    by (simp add: numeral_2_eq_2 busy_until_def busy_error_def run_hook_def start_def)
  have ok: "busy_until 2 () 2 = (Inr ''ok'', 3)" by (simp add: busy_until_def)
  have ab: "busy_attempts (\<lambda>s. ()) None always_busy 1200 (world start) = Some 1200"
    by (simp add: always_busy_attempts start_def)
  have k: "(2::nat) < 1200" by simp
  show ?thesis
    using retry_busy_scenarios
        [of 2 "\<lambda>s. ()" "Some ethErrorHook" "busy_until 2" start 2 "''ok''" 3 "()"]
      retry_busy_scenarios
        [of 2 "\<lambda>s. ()" None "busy_until 2" start 2 "''ok''" 3 "()"]
      retry_busy_scenarios
        [of 0 "\<lambda>s. ()" None always_busy start 1200 "''ok''" 3 "()"]
      b2 b2' ok ab k
    by (simp add: start_def numeral_2_eq_2)
qed

text \<open>
  Claim C4 says this of every operation passed to the executor and of every hook. The
  executor hands the caught error to the hook before it looks at the error's id. With a
  hook that throws on a busy rejection, an operation that is busy once and would then
  succeed, and one that is always busy, both fail with the hook's error after a single
  attempt and no pause. With a hook that returns normally after deleting the error's id,
  the operation that is busy once and would then succeed fails with the busy rejection,
  after a single attempt and no pause.
\<close>

theorem retry_hook_overrides_busy:
  "retry (\<lambda>s. ()) (Some rewriting_hook) (busy_until 1) start =
     (Inl (Error ''rewritten''), \<lparr>world = 1, attempts = 1, pauses = []\<rparr>)
   \<and> retry (\<lambda>s. ()) (Some rewriting_hook) always_busy start =
     (Inl (Error ''rewritten''), \<lparr>world = 1, attempts = 1, pauses = []\<rparr>)
   \<and> Error ''rewritten'' \<noteq> Error ''timeout''
   \<and> retry (\<lambda>s. ()) (Some clearing_hook) (busy_until 1) start =
     (Inl (busy_error\<lparr>err_id := None\<rparr>), \<lparr>world = 1, attempts = 1, pauses = []\<rparr>)"
  by (simp add: retry_def retry_from.simps [of 0] busy_until_def always_busy_def
      busy_error_def rewriting_hook_def clearing_hook_def run_hook_def start_def Error_def)

text \<open>
  Claim C5, amended. Let the first \<open>k < 1200\<close> attempts be busy rejections that the hook
  lets pass, and let the next attempt fail with \<open>error\<close>. If the hook returns normally on
  \<open>error\<close> (as the absence of a hook does, leaving the error as it is), and the id of the
  error as the hook leaves it is not \<open>TransportLocked\<close>, then \<open>retry\<close> propagates the error,
  as the hook leaves it, at once: no
  further attempt is made, and no pause follows the failed attempt (the only pauses are
  the \<open>k\<close> that followed the busy rejections, none when the first attempt fails). If the
  hook throws, what it throws propagates at once in the same way, whatever the id of
  \<open>error\<close>, the busy id included. The executor \<open>_retry\<close> of the older signers has no hook
  and propagates every error whose id is not \<open>TransportLocked\<close> at once.
\<close>

theorem retry_fails_fast:
  "(k < 1200 \<and> busy_attempts container errorHook operation k (world x) = Some sk
      \<and> operation (container sk) sk = (Inl error, s1)
      \<and> run_hook errorHook error s1 = (Inr left, s2)
      \<and> err_id left \<noteq> Some ''TransportLocked''
    \<longrightarrow> retry container errorHook operation x =
          (Inl left, x\<lparr>world := s2, attempts := attempts x + k + 1,
                        pauses := pauses x @ replicate k 100\<rparr>))
   \<and> (k < 1200 \<and> busy_attempts container errorHook operation k (world x) = Some sk
      \<and> operation (container sk) sk = (Inl error, s1)
      \<and> run_hook errorHook error s1 = (Inl thrown, s2)
    \<longrightarrow> retry container errorHook operation x =
          (Inl thrown, x\<lparr>world := s2, attempts := attempts x + k + 1,
                          pauses := pauses x @ replicate k 100\<rparr>))
   \<and> (k < 1200 \<and> busy_attempts (\<lambda>s. ethApp) None operation k (world x) = Some sk
      \<and> operation ethApp sk = (Inl error, s1)
      \<and> err_id error \<noteq> Some ''TransportLocked''
    \<longrightarrow> retry_method ethApp operation x =
          (Inl error, x\<lparr>world := s1, attempts := attempts x + k + 1,
                         pauses := pauses x @ replicate k 100\<rparr>))"
  using retry_failure [of k container errorHook operation x sk error s1 "Inr left" s2]
    retry_failure [of k container errorHook operation x sk error s1 "Inl thrown" s2]
    retry_failure [of k "\<lambda>s. ethApp" None operation x sk error s1 "Inr error" s1]
  by (auto simp: retry_method_eq run_hook_def)

theorem retry_fails_fast_witness:
  "retry (\<lambda>s. ()) (Some ethErrorHook) (failing_with (Error ''rejected'')) start =
     (Inl (Error ''rejected''), \<lparr>world = 1, attempts = 1, pauses = []\<rparr>)
   \<and> retry (\<lambda>s. ()) None (failing_with (Error ''rejected'')) start =
     (Inl (Error ''rejected''), \<lparr>world = 1, attempts = 1, pauses = []\<rparr>)
   \<and> retry (\<lambda>s. ()) (Some rewriting_hook) (failing_with busy_error) start =
     (Inl (Error ''rewritten''), \<lparr>world = 1, attempts = 1, pauses = []\<rparr>)
   \<and> retry_method () (failing_with (Error ''rejected'')) start =
     (Inl (Error ''rejected''), \<lparr>world = 1, attempts = 1, pauses = []\<rparr>)"
proof -
  have k: "(0::nat) < 1200" by simp
  have b: "busy_attempts (\<lambda>s. ()) h op 0 (world start) = Some 0" for h
    and op :: "unit \<Rightarrow> (nat, string) action"
    by (simp add: start_def)
  have f: "failing_with e () 0 = (Inl e, 1)" for e by (simp add: failing_with_def)
  have h1: "run_hook (Some ethErrorHook) (Error ''rejected'') (1::nat) =
              (Inr (Error ''rejected''), 1)"
    by (simp add: run_hook_def ethErrorHook_def Error_def)
  have h0: "run_hook None (Error ''rejected'') (1::nat) = (Inr (Error ''rejected''), 1)"
    by (simp add: run_hook_def)
  have h2: "run_hook (Some rewriting_hook) busy_error 1 = (Inl (Error ''rewritten''), 1)"
    by (simp add: run_hook_def rewriting_hook_def)
  have n: "err_id (Error ''rejected'') \<noteq> Some ''TransportLocked''"
    by (simp add: Error_def)
  show ?thesis
    using retry_fails_fast
        [of 0 "\<lambda>s. ()" "Some ethErrorHook" "failing_with (Error ''rejected'')" start 0
           "Error ''rejected''" 1 "Error ''rejected''" 1 "Error ''x''" "()"]
      retry_fails_fast
        [of 0 "\<lambda>s. ()" None "failing_with (Error ''rejected'')" start 0
           "Error ''rejected''" 1 "Error ''rejected''" 1 "Error ''x''" "()"]
      retry_fails_fast
        [of 0 "\<lambda>s. ()" "Some rewriting_hook" "failing_with busy_error" start 0
           busy_error 1 busy_error 1 "Error ''rewritten''" "()"]
      k b f h0 h1 h2 n
    by (simp add: start_def)
qed

text \<open>
  Claim C5 says this of every hook. The executor reads the error's id after the hook has
  returned, from the object the hook was handed. With a hook that returns normally after
  setting the id of the error to \<open>TransportLocked\<close>, an operation whose first attempt fails
  with an error that has no id, and whose second attempt would succeed, is paused for and
  attempted again: the error does not propagate.
\<close>

theorem retry_hook_relabels_failure:
  "err_id (Error ''rejected'') \<noteq> Some ''TransportLocked''
   \<and> failing_until 1 (Error ''rejected'') () 0 = (Inl (Error ''rejected''), 1)
   \<and> retry (\<lambda>s. ()) (Some labelling_hook) (failing_until 1 (Error ''rejected'')) start =
     (Inr ''ok'', \<lparr>world = 2, attempts = 2, pauses = [100]\<rparr>)"
  by (simp add: retry_def retry_from.simps [of 0] retry_from.simps [of "Suc 0"]
      failing_until_def labelling_hook_def run_hook_def start_def Error_def sleep_def)

section \<open>Properties of the signer methods\<close>

text \<open>
  The hook of \<open>LedgerSigner.retry\<close> only inspects the error. Under such a hook a
  successful run of the executor is a run of busy rejections followed by a success.
\<close>

lemma inspecting_eth: "inspecting (Some ethErrorHook)"
  by (simp add: inspecting_def run_hook_def ethErrorHook_def)

lemma inspecting_none: "inspecting None"
  by (simp add: inspecting_def run_hook_def)

lemma inspectingD:
  assumes "inspecting h" and "run_hook h e s = (r, s1)"
  shows "s1 = s \<and> (\<forall>e1. r = Inr e1 \<longrightarrow> e1 = e)"
proof -
  from assms(1) have "case run_hook h e s of
                        (Inl thrown, s1) \<Rightarrow> s1 = s
                      | (Inr left, s1) \<Rightarrow> s1 = s \<and> left = e"
    unfolding inspecting_def by simp
  then show ?thesis using assms(2) by (cases r) simp_all
qed

lemma retry_from_Inr:
  assumes pure: "inspecting h"
  shows "1200 - i = n \<Longrightarrow> retry_from i c h op x = (Inr v, x1) \<Longrightarrow>
   \<exists>k sk s1. i + k < 1200 \<and> busy_attempts c h op k (world x) = Some sk
     \<and> op (c sk) sk = (Inr v, s1)
     \<and> x1 = x\<lparr>world := s1, attempts := attempts x + k + 1,
                pauses := pauses x @ replicate k 100\<rparr>"
proof (induction n arbitrary: i x)
  case 0
  then have "\<not> i < 1200" by simp
  then show ?case using "0.prems"(2) by (subst (asm) retry_from.simps) simp
next
  case (Suc n)
  then have i: "i < 1200" by simp
  obtain out s where op: "op (c (world x)) (world x) = (out, s)"
    by (cases "op (c (world x)) (world x)")
  show ?case
  proof (cases out)
    case (Inr result)
    then have "v = result" "x1 = x\<lparr>world := s, attempts := attempts x + 1\<rparr>"
      using Suc.prems(2) i op by (subst (asm) retry_from.simps, simp)+
    then show ?thesis using i op Inr
      by (intro exI [of _ 0] exI [of _ "world x"] exI [of _ s]) simp
  next
    case (Inl e)
    let ?x1 = "sleep 100 (x\<lparr>world := s, attempts := attempts x + 1\<rparr>)"
    obtain r s1 where hook0: "run_hook h e s = (r, s1)" by (cases "run_hook h e s")
    from inspectingD [OF pure hook0] have s1: "s1 = s" and same: "\<forall>e1. r = Inr e1 \<longrightarrow> e1 = e" by simp_all
    have "r = Inr e \<and> err_id e = Some ''TransportLocked''"
      using Suc.prems(2) i op Inl hook0 same
      by (subst (asm) retry_from.simps) (auto simp: Let_def split: sum.splits if_splits)
    then have hook: "run_hook h e s = (Inr e, s)"
      and busy: "err_id e = Some ''TransportLocked''"
      using hook0 s1 by simp_all
    have rec: "retry_from (i + 1) c h op ?x1 = (Inr v, x1)"
      using Suc.prems(2) i op Inl hook busy
      by (subst (asm) retry_from.simps) (simp add: Let_def)
    have "1200 - (i + 1) = n" using Suc.prems(1) by simp
    from Suc.IH [OF this rec] obtain k sk s1 where
      k: "i + 1 + k < 1200" and b: "busy_attempts c h op k (world ?x1) = Some sk"
      and o: "op (c sk) sk = (Inr v, s1)"
      and x1: "x1 = ?x1\<lparr>world := s1, attempts := attempts ?x1 + k + 1,
                pauses := pauses ?x1 @ replicate k 100\<rparr>"
      by blast
    have "busy_attempts c h op (Suc k) (world x) = Some sk"
      using b op Inl hook busy by (simp add: sleep_def)
    moreover have "x1 = x\<lparr>world := s1, attempts := attempts x + Suc k + 1,
                pauses := pauses x @ replicate (Suc k) 100\<rparr>"
      using x1 by (simp add: sleep_def replicate_append_same)
    ultimately show ?thesis using k o
      by (intro exI [of _ "Suc k"] exI [of _ sk] exI [of _ s1]) simp
  qed
qed

lemma retry_Inr:
  assumes "inspecting h" and "retry c h op x = (Inr v, x1)"
  shows "\<exists>k sk s1. k < 1200 \<and> busy_attempts c h op k (world x) = Some sk
     \<and> op (c sk) sk = (Inr v, s1)
     \<and> x1 = x\<lparr>world := s1, attempts := attempts x + k + 1,
                pauses := pauses x @ replicate k 100\<rparr>"
  using retry_from_Inr [OF assms(1), of 0 1200 c op x v x1] assms(2) by (simp add: retry_def)

lemma busy_attempts_invoke:
  assumes pure: "inspecting h"
  shows "busy_attempts app h (invoke c m) k s = Some sk \<Longrightarrow>
   app sk = app s \<and> addressCache sk = addressCache s
   \<and> calls sk = calls s @ replicate k c \<and> (0 < k \<longrightarrow> app s \<noteq> None)"
proof (induction k arbitrary: s)
  case 0
  then show ?case by simp
next
  case (Suc k)
  show ?case
  proof (cases "app s")
    case None
    then show ?thesis using Suc.prems
      by (auto simp: invoke_def TypeError_def Error_def split: sum.splits prod.splits)
  next
    case (Some handle)
    obtain out d where m: "m (driver s) = (out, d)" by (cases "m (driver s)")
    let ?s1 = "s\<lparr>driver := d, calls := calls s @ [c]\<rparr>"
    have inv: "invoke c m (app s) s = (out, ?s1)"
      using Some m by (simp add: invoke_def)
    have "busy_attempts app h (invoke c m) k ?s1 = Some sk"
    proof (cases out)
      case (Inr v)
      then show ?thesis using Suc.prems inv by simp
    next
      case (Inl e)
      obtain r s2 where hook: "run_hook h e ?s1 = (r, s2)" by (cases "run_hook h e ?s1")
      from inspectingD [OF pure hook] have "s2 = ?s1" by simp
      then show ?thesis using Suc.prems inv Inl hook
        by (auto split: sum.splits if_splits)
    qed
    from Suc.IH [OF this] show ?thesis using Some
      by (simp add: replicate_append_same)
  qed
qed

lemma retry_from_invoke:
  assumes pure: "inspecting h"
  shows "1200 - i = n \<Longrightarrow> retry_from i app h (invoke c m) x = (r, x1) \<Longrightarrow>
   app (world x1) = app (world x) \<and> addressCache (world x1) = addressCache (world x)
   \<and> attempts x \<le> attempts x1 \<and> (i < 1200 \<longrightarrow> attempts x < attempts x1)
   \<and> calls (world x1) =
       calls (world x) @
         (if app (world x) = None then [] else replicate (attempts x1 - attempts x) c)"
proof (induction n arbitrary: i x)
  case 0
  then have "\<not> i < 1200" by simp
  then have "x1 = x" using "0.prems"(2) by (subst (asm) retry_from.simps) simp
  then show ?case using \<open>\<not> i < 1200\<close> by simp
next
  case (Suc n)
  then have i: "i < 1200" by simp
  obtain out s where op: "invoke c m (app (world x)) (world x) = (out, s)"
    by (cases "invoke c m (app (world x)) (world x)")
  let ?x1 = "x\<lparr>world := s, attempts := attempts x + 1\<rparr>"
  have s: "app s = app (world x) \<and> addressCache s = addressCache (world x)
     \<and> calls s = calls (world x) @ (if app (world x) = None then [] else [c])"
    using op by (auto simp: invoke_def split: option.splits prod.splits)
  have hook: "run_hook h e s = (r', s') \<Longrightarrow> s' = s" for e r' s'
    using inspectingD [OF pure, of e s r' s'] by simp
  have fin: ?case if "x1 = ?x1"
    using that s by auto
  show ?case
  proof (cases "\<exists>e e1. out = Inl e \<and> fst (run_hook h e s) = Inr e1
                  \<and> err_id e1 = Some ''TransportLocked''")
    case False
    then have "x1 = ?x1" using Suc.prems(2) i op hook
      by (subst (asm) retry_from.simps)
         (auto simp: Let_def split: sum.splits prod.splits if_splits)
    then show ?thesis by (rule fin)
  next
    case True
    then obtain e e1 where e: "out = Inl e" "fst (run_hook h e s) = Inr e1"
      "err_id e1 = Some ''TransportLocked''"
      by blast
    have "run_hook h e s = (Inr e1, s)"
      using e(2) hook [of e "fst (run_hook h e s)" "snd (run_hook h e s)"]
      by (metis prod.collapse)
    then have rec: "retry_from (i + 1) app h (invoke c m) (sleep 100 ?x1) = (r, x1)"
      using Suc.prems(2) i op e
      by (subst (asm) retry_from.simps) (simp add: Let_def)
    have "1200 - (i + 1) = n" using Suc.prems(1) by simp
    from Suc.IH [OF this rec] have
      ih: "app (world x1) = app s" "addressCache (world x1) = addressCache s"
        "attempts x + 1 \<le> attempts x1"
        "calls (world x1) =
           calls s @ (if app s = None then [] else replicate (attempts x1 - (attempts x + 1)) c)"
      by (simp_all add: sleep_def)
    have "[c] @ replicate (attempts x1 - (attempts x + 1)) c =
          replicate (attempts x1 - attempts x) c"
      using ih(3) by (metis Suc_diff_le Suc_eq_plus1 append_Cons append_Nil diff_Suc_Suc
          replicate_Suc)
    then show ?thesis using ih s by auto
  qed
qed

lemma LedgerSigner_retry_invoke:
  assumes "LedgerSigner_retry (invoke c m) x = (r, x1)"
  shows "app (world x1) = app (world x) \<and> addressCache (world x1) = addressCache (world x)
   \<and> attempts x < attempts x1
   \<and> calls (world x1) =
       calls (world x) @
         (if app (world x) = None then [] else replicate (attempts x1 - attempts x) c)"
  using retry_from_invoke [OF inspecting_eth, of 0 1200 c m x r x1] assms
  by (simp add: LedgerSigner_retry_def retry_def)

lemma LedgerSigner_retry_undefined:
  assumes "app (world x) = None"
  shows "LedgerSigner_retry (invoke c m) x = (Inl TypeError, x\<lparr>attempts := attempts x + 1\<rparr>)"
  unfolding LedgerSigner_retry_def retry_def
  by (subst retry_from.simps)
     (simp add: assms invoke_def run_hook_def ethErrorHook_def TypeError_def Error_def)

lemma LedgerSigner_retry_status:
  assumes "LedgerSigner_retry (invoke c m) x = (Inl e, x1)" and "statusCode e = Some n"
  shows "app (world x) \<noteq> None"
proof
  assume "app (world x) = None"
  then have "e = TypeError" using LedgerSigner_retry_undefined [of x c m] assms(1) by simp
  then show False using assms(2) by (simp add: TypeError_def Error_def)
qed

lemma new_calls_append: "calls (world y) = calls (world x) @ l \<Longrightarrow> new_calls x y = l"
  by (simp add: new_calls_def)

lemma invoke_Inr:
  assumes "invoke c m eth s = (Inr v, s1)"
  shows "\<exists>d. eth \<noteq> None \<and> m (driver s) = (Inr v, d)
           \<and> s1 = s\<lparr>driver := d, calls := calls s @ [c]\<rparr>"
  using assms by (auto simp: invoke_def split: option.splits prod.splits)

lemma eth_getAddress_cached:
  assumes "getAddress lib dev path x = (Inr address, x1)"
  shows "getAddress lib dev path x1 = (Inr address, x1)
       \<and> addressCache (world x1) path = Some address
       \<and> (addressCache (world x) path \<noteq> None \<longrightarrow> x1 = x)
       \<and> (addressCache (world x) path = None \<longrightarrow>
            (\<exists>k sk account d. k < 1200
               \<and> busy_attempts app (Some ethErrorHook)
                    (invoke (GetAddress path) (eth_getAddress dev path)) k (world x) = Some sk
               \<and> eth_getAddress dev path (driver sk) = (Inr account, d)
               \<and> utils_getAddress lib (acc_address account) = Inr address
               \<and> new_calls x x1 = replicate (k + 1) (GetAddress path)
               \<and> attempts x1 = attempts x + k + 1
               \<and> pauses x1 = pauses x @ replicate k 100))"
proof (cases "addressCache (world x) path")
  case (Some cached)
  then have "address = cached" "x1 = x" using assms by (simp_all add: getAddress_def)
  then show ?thesis using Some by (simp add: getAddress_def)
next
  case None
  obtain r y where ret: "LedgerSigner_retry (invoke (GetAddress path) (eth_getAddress dev path)) x = (r, y)"
    by (cases "LedgerSigner_retry (invoke (GetAddress path) (eth_getAddress dev path)) x")
  with assms None obtain account where
    r: "r = Inr account" and a: "utils_getAddress lib (acc_address account) = Inr address"
    and x1: "x1 = y\<lparr>world := (world y)
               \<lparr>addressCache := (addressCache (world y))(path \<mapsto> address)\<rparr>\<rparr>"
    by (cases r) (auto simp: getAddress_def split: sum.splits)
  from ret r obtain k sk s1 where
    k: "k < 1200" and b: "busy_attempts app (Some ethErrorHook) (invoke (GetAddress path) (eth_getAddress dev path)) k (world x) = Some sk"
    and o: "(invoke (GetAddress path) (eth_getAddress dev path)) (app sk) sk = (Inr account, s1)"
    and y: "y = x\<lparr>world := s1, attempts := attempts x + k + 1,
                pauses := pauses x @ replicate k 100\<rparr>"
    using retry_Inr [OF inspecting_eth, of app
        "invoke (GetAddress path) (eth_getAddress dev path)" x account y]
    by (auto simp: LedgerSigner_retry_def)
  from invoke_Inr [OF o] obtain d where
    m: "eth_getAddress dev path (driver sk) = (Inr account, d)"
    and s1: "s1 = sk\<lparr>driver := d, calls := calls sk @ [(GetAddress path)]\<rparr>"
    by blast
  have "calls sk = calls (world x) @ replicate k (GetAddress path)"
    using busy_attempts_invoke [OF inspecting_eth b] by simp
  then have "calls (world x1) = calls (world x) @ replicate (k + 1) (GetAddress path)"
    using x1 y s1 by (simp add: replicate_append_same)
  then have n: "new_calls x x1 = replicate (k + 1) (GetAddress path)" by (rule new_calls_append)
  have c: "addressCache (world x1) path = Some address" using x1 by simp
  have second: "getAddress lib dev path x1 = (Inr address, x1)"
    using c by (simp add: getAddress_def)
  have "\<exists>k sk account d. k < 1200
               \<and> busy_attempts app (Some ethErrorHook) (invoke (GetAddress path) (eth_getAddress dev path)) k (world x) = Some sk
               \<and> eth_getAddress dev path (driver sk) = (Inr account, d)
               \<and> utils_getAddress lib (acc_address account) = Inr address
               \<and> new_calls x x1 = replicate (k + 1) (GetAddress path)
               \<and> attempts x1 = attempts x + k + 1
               \<and> pauses x1 = pauses x @ replicate k 100"
    using k b m a n x1 y by (intro exI [of _ k] exI [of _ sk] exI [of _ account] exI [of _ d]) simp
  then show ?thesis using second c None by simp
qed



lemmas signer_eval = getAddress_def solana_getAddress_def copyBytesFrom_def
  busy_once_solana_def signTypedData_def LedgerSigner_retry_def retry_def
  retry_from.simps invoke_def run_hook_def ethErrorHook_def normalize_signature_def
  example_lib_def old_firmware_def connected_def busy_error_def unsupported_def sleep_def
  new_calls_def fallback_request_def TypeError_def Error_def Let_def
  is_hex_def hex_digits_def isHexString_def invalid_address_def example_getAddress_def
  example_provider_def example_resolver_def

lemma solana_getAddress_cached:
  assumes "solana_getAddress dev path x = (Inr address, x1)"
  shows "solana_getAddress dev path x1 = (Inr address, x1)
       \<and> addressCache (world x1) path = Some address
       \<and> (addressCache (world x) path \<noteq> None \<longrightarrow> x1 = x)
       \<and> (addressCache (world x) path = None \<longrightarrow>
            (\<exists>k sk d. k < 1200
               \<and> busy_attempts app None
                    (invoke (GetAddress path) (sol_getAddress dev path)) k (world x) = Some sk
               \<and> sol_getAddress dev path (driver sk) = (Inr address, d)
               \<and> new_calls x x1 = replicate (k + 1) (GetAddress path)
               \<and> attempts x1 = attempts x + k + 1
               \<and> pauses x1 = pauses x @ replicate k 100))"
proof (cases "addressCache (world x) path")
  case (Some cached)
  then have "address = cached" "x1 = x"
    using assms by (simp_all add: solana_getAddress_def copyBytesFrom_def)
  then show ?thesis using Some by (simp add: solana_getAddress_def copyBytesFrom_def)
next
  case None
  obtain r y where ret: "retry app None (invoke (GetAddress path) (sol_getAddress dev path)) x = (r, y)"
    by (cases "retry app None (invoke (GetAddress path) (sol_getAddress dev path)) x")
  with assms None have
    r: "r = Inr address"
    and x1: "x1 = y\<lparr>world := (world y)
               \<lparr>addressCache := (addressCache (world y))(path \<mapsto> address)\<rparr>\<rparr>"
    by (cases r; auto simp: solana_getAddress_def copyBytesFrom_def)+
  from ret r obtain k sk s1 where
    k: "k < 1200" and b: "busy_attempts app None (invoke (GetAddress path) (sol_getAddress dev path)) k (world x) = Some sk"
    and o: "(invoke (GetAddress path) (sol_getAddress dev path)) (app sk) sk = (Inr address, s1)"
    and y: "y = x\<lparr>world := s1, attempts := attempts x + k + 1,
                pauses := pauses x @ replicate k 100\<rparr>"
    using retry_Inr [OF inspecting_none, of app
        "invoke (GetAddress path) (sol_getAddress dev path)" x address y]
    by auto
  from invoke_Inr [OF o] obtain d where
    m: "sol_getAddress dev path (driver sk) = (Inr address, d)"
    and s1: "s1 = sk\<lparr>driver := d, calls := calls sk @ [(GetAddress path)]\<rparr>"
    by blast
  have "calls sk = calls (world x) @ replicate k (GetAddress path)"
    using busy_attempts_invoke [OF inspecting_none b] by simp
  then have "calls (world x1) = calls (world x) @ replicate (k + 1) (GetAddress path)"
    using x1 y s1 by (simp add: replicate_append_same)
  then have n: "new_calls x x1 = replicate (k + 1) (GetAddress path)" by (rule new_calls_append)
  have c: "addressCache (world x1) path = Some address" using x1 by simp
  have second: "solana_getAddress dev path x1 = (Inr address, x1)"
    using c by (simp add: solana_getAddress_def copyBytesFrom_def)
  have "\<exists>k sk d. k < 1200
               \<and> busy_attempts app None (invoke (GetAddress path) (sol_getAddress dev path)) k (world x) = Some sk
               \<and> sol_getAddress dev path (driver sk) = (Inr address, d)
               \<and> new_calls x x1 = replicate (k + 1) (GetAddress path)
               \<and> attempts x1 = attempts x + k + 1
               \<and> pauses x1 = pauses x @ replicate k 100"
    using k b m n x1 y by (intro exI [of _ k] exI [of _ sk] exI [of _ d]) simp
  then show ?thesis using second c None by simp
qed

text \<open>
  Claim C8. When a \<open>getAddress\<close> call on a signer holding a path succeeds, the next
  \<open>getAddress\<close> call on a signer holding that path returns the same address and leaves the
  state as it is: it invokes no device method, makes no attempt and no pause. The address
  is stored in the cache under the path the signer holds, which is the normalized string
  that \<open>create\<close> gave it. If the cache had no entry before the first call, that call
  invoked the device's \<open>getAddress\<close> for the path \<open>k + 1\<close> times, the first \<open>k\<close> rejected as
  busy by the transport and the last one answered by the device: one device round trip
  over the two calls. If the cache had an entry, the first call did not reach the device
  either. This holds for the Ethereum signer and for the Solana signer.
\<close>

theorem getAddress_cached:
  "(getAddress lib dev path x = (Inr address, x1) \<longrightarrow>
      getAddress lib dev path x1 = (Inr address, x1)
      \<and> addressCache (world x1) path = Some address
      \<and> (addressCache (world x) path \<noteq> None \<longrightarrow> x1 = x)
      \<and> (addressCache (world x) path = None \<longrightarrow>
           (\<exists>k sk account d. k < 1200
              \<and> busy_attempts app (Some ethErrorHook)
                   (invoke (GetAddress path) (eth_getAddress dev path)) k (world x) = Some sk
              \<and> eth_getAddress dev path (driver sk) = (Inr account, d)
              \<and> utils_getAddress lib (acc_address account) = Inr address
              \<and> new_calls x x1 = replicate (k + 1) (GetAddress path)
              \<and> attempts x1 = attempts x + k + 1
              \<and> pauses x1 = pauses x @ replicate k 100)))
   \<and> (solana_getAddress sol path y = (Inr buffer, y1) \<longrightarrow>
      solana_getAddress sol path y1 = (Inr buffer, y1)
      \<and> addressCache (world y1) path = Some buffer
      \<and> (addressCache (world y) path \<noteq> None \<longrightarrow> y1 = y)
      \<and> (addressCache (world y) path = None \<longrightarrow>
           (\<exists>k sk d. k < 1200
              \<and> busy_attempts app None
                   (invoke (GetAddress path) (sol_getAddress sol path)) k (world y) = Some sk
              \<and> sol_getAddress sol path (driver sk) = (Inr buffer, d)
              \<and> new_calls y y1 = replicate (k + 1) (GetAddress path)
              \<and> attempts y1 = attempts y + k + 1
              \<and> pauses y1 = pauses y @ replicate k 100)))"
  using eth_getAddress_cached [of lib dev path x address x1]
    solana_getAddress_cached [of sol path y buffer y1]
  by blast

theorem getAddress_cached_witness:
  "fst (getAddress example_lib old_firmware ''44'/60'/0'/0/0'' connected) = Inr ''0xabc''
   \<and> getAddress example_lib old_firmware ''44'/60'/0'/0/0''
        (snd (getAddress example_lib old_firmware ''44'/60'/0'/0/0'' connected)) =
     (Inr ''0xabc'', snd (getAddress example_lib old_firmware ''44'/60'/0'/0/0'' connected))
   \<and> addressCache (world connected) ''44'/60'/0'/0/0'' = None
   \<and> new_calls connected (snd (getAddress example_lib old_firmware ''44'/60'/0'/0/0'' connected)) =
     [GetAddress ''44'/60'/0'/0/0'', GetAddress ''44'/60'/0'/0/0'']
   \<and> pauses (snd (getAddress example_lib old_firmware ''44'/60'/0'/0/0'' connected)) = [100]
   \<and> fst (solana_getAddress busy_once_solana ''44'/60'/0'/0/0'' connected) =
     Inr ''pubkey-bytes''
   \<and> solana_getAddress busy_once_solana ''44'/60'/0'/0/0''
        (snd (solana_getAddress busy_once_solana ''44'/60'/0'/0/0'' connected)) =
     (Inr ''pubkey-bytes'',
      snd (solana_getAddress busy_once_solana ''44'/60'/0'/0/0'' connected))"
proof -
  have h1: "fst (getAddress example_lib old_firmware ''44'/60'/0'/0/0'' connected) = Inr ''0xabc''"
    by (simp add: signer_eval)
  then have h: "getAddress example_lib old_firmware ''44'/60'/0'/0/0'' connected =
     (Inr ''0xabc'', snd (getAddress example_lib old_firmware ''44'/60'/0'/0/0'' connected))"
    by (metis prod.collapse)
  have c: "addressCache (world connected) ''44'/60'/0'/0/0'' = None"
    by (simp add: connected_def)
  have n: "new_calls connected (snd (getAddress example_lib old_firmware ''44'/60'/0'/0/0'' connected)) =
     [GetAddress ''44'/60'/0'/0/0'', GetAddress ''44'/60'/0'/0/0'']"
    by (simp add: signer_eval)
  have p: "pauses (snd (getAddress example_lib old_firmware ''44'/60'/0'/0/0'' connected)) = [100]"
    by (simp add: signer_eval)
  have g1: "fst (solana_getAddress busy_once_solana ''44'/60'/0'/0/0'' connected) =
     Inr ''pubkey-bytes''"
    by (simp add: signer_eval)
  then have g: "solana_getAddress busy_once_solana ''44'/60'/0'/0/0'' connected =
     (Inr ''pubkey-bytes'',
      snd (solana_getAddress busy_once_solana ''44'/60'/0'/0/0'' connected))"
    by (metis prod.collapse)
  have second: "getAddress example_lib old_firmware ''44'/60'/0'/0/0''
        (snd (getAddress example_lib old_firmware ''44'/60'/0'/0/0'' connected)) =
     (Inr ''0xabc'', snd (getAddress example_lib old_firmware ''44'/60'/0'/0/0'' connected))
   \<and> solana_getAddress busy_once_solana ''44'/60'/0'/0/0''
        (snd (solana_getAddress busy_once_solana ''44'/60'/0'/0/0'' connected)) =
     (Inr ''pubkey-bytes'',
      snd (solana_getAddress busy_once_solana ''44'/60'/0'/0/0'' connected))"
    using getAddress_cached
        [of example_lib old_firmware "''44'/60'/0'/0/0''" connected "''0xabc''"
           "snd (getAddress example_lib old_firmware ''44'/60'/0'/0/0'' connected)"
           busy_once_solana connected "''pubkey-bytes''"
           "snd (solana_getAddress busy_once_solana ''44'/60'/0'/0/0'' connected)"]
      h g
    by blast
  show ?thesis using h1 c n p g1 second by (intro conjI) simp_all
qed

lemma signTypedData_unfold:
  assumes "resolveNames lib domain types val = Inr (pd, pv)"
    and "getPayload lib pd types pv = Inr payload"
    and "LedgerSigner_retry
           (invoke (SignEIP712Message path payload)
              (eth_signEIP712Message dev path payload)) x = (direct, x1)"
  shows "signTypedData lib dev path domain types val x =
     (case direct of
        Inr sig \<Rightarrow> (normalize_signature lib sig, x1)
      | Inl error \<Rightarrow>
          if statusCode error \<noteq> Some 27904 then (Inl error, x1)
          else
            (case hashDomain lib domain of
               Inl thrown \<Rightarrow> (Inl thrown, x1)
             | Inr domainHash \<Rightarrow>
                 (case hash lib types val of
                    Inl thrown \<Rightarrow> (Inl thrown, x1)
                  | Inr valueHash \<Rightarrow>
                      (case LedgerSigner_retry
                              (invoke
                                 (SignEIP712HashedMessage path (drop 2 domainHash)
                                    (drop 2 valueHash))
                                 (eth_signEIP712HashedMessage dev path (drop 2 domainHash)
                                    (drop 2 valueHash))) x1 of
                         (Inr sig, x2) \<Rightarrow> (normalize_signature lib sig, x2)
                       | (Inl error2, x2) \<Rightarrow> (Inl error2, x2)))))"
  using assms by (simp add: signTypedData_def split: sum.splits prod.splits)

lemma direct_calls:
  assumes "LedgerSigner_retry (invoke c m) x = (r, x1)"
  shows "\<exists>n. new_calls x x1 = replicate n c \<and> (app (world x) \<noteq> None \<longrightarrow> 0 < n)"
proof -
  have a: "attempts x < attempts x1"
    and c: "calls (world x1) =
       calls (world x) @
         (if app (world x) = None then [] else replicate (attempts x1 - attempts x) c)"
    using LedgerSigner_retry_invoke [OF assms] by auto
  show ?thesis
  proof (cases "app (world x)")
    case None
    then show ?thesis using new_calls_append [OF c] by (intro exI [of _ 0]) simp
  next
    case (Some handle)
    then show ?thesis using new_calls_append [OF c] a
      by (intro exI [of _ "attempts x1 - attempts x"]) simp
  qed
qed


lemma fallback_request_Inl:
  "fallback_request lib path domain types val = Inl thrown \<longleftrightarrow>
   (hashDomain lib domain = Inl thrown
    \<or> (\<exists>domainHash. hashDomain lib domain = Inr domainHash \<and> hash lib types val = Inl thrown))"
  by (auto simp: fallback_request_def split: sum.splits)

lemma signTypedData_outcome:
  assumes rn: "resolveNames lib domain types val = Inr (pd, pv)"
    and gp: "getPayload lib pd types pv = Inr payload"
    and direct: "LedgerSigner_retry
           (invoke (SignEIP712Message path payload)
              (eth_signEIP712Message dev path payload)) x = (direct, x1)"
    and final: "signTypedData lib dev path domain types val x = (res, x2)"
  shows "direct = Inr sig \<Longrightarrow> res = normalize_signature lib sig \<and> x2 = x1"
    and "direct = Inl error \<Longrightarrow> statusCode error \<noteq> Some 27904 \<Longrightarrow> res = Inl error \<and> x2 = x1"
    and "direct = Inl error \<Longrightarrow> statusCode error = Some 27904 \<Longrightarrow>
         fallback_request lib path domain types val = Inl thrown \<Longrightarrow>
         res = Inl thrown \<and> x2 = x1"
  using final signTypedData_unfold [OF rn gp direct]
  by (auto simp: fallback_request_Inl)


text \<open>
  Claim C3. The claim is that the hashed fallback is taken exactly when the direct
  request fails with status 27904, and that the two hashes are then computed and
  \<open>signEIP712HashedMessage\<close> is invoked with them. The method resolves the names in the
  domain and the value and builds the direct request from the populated ones, but in the
  fallback it hashes the domain and the value it was called with, and the encoder throws
  on an address field that holds a name. Let name resolution succeed, let the direct
  request fail with an error whose \<open>statusCode\<close> is 27904, and let the hashing of the
  unresolved domain or value throw. Then \<open>signTypedData\<close> fails with what the hashing
  throws, in the state in which the direct request ended: the device has been asked for
  the structured signature at least once, and \<open>signEIP712HashedMessage\<close> is not invoked.
\<close>

theorem signTypedData_fallback_hashing_throws:
  assumes "resolveNames lib domain types val = Inr (pd, pv)"
    and "getPayload lib pd types pv = Inr payload"
    and "LedgerSigner_retry
           (invoke (SignEIP712Message path payload)
              (eth_signEIP712Message dev path payload)) x = (Inl error, x1)"
    and "statusCode error = Some 27904"
    and "fallback_request lib path domain types val = Inl thrown"
  shows "signTypedData lib dev path domain types val x = (Inl thrown, x1)
       \<and> (\<exists>n. 0 < n \<and> new_calls x x1 = replicate n (SignEIP712Message path payload))
       \<and> \<not> list_ex is_hashed_call (new_calls x x1)"
proof -
  obtain res x2 where final: "signTypedData lib dev path domain types val x = (res, x2)"
    by (cases "signTypedData lib dev path domain types val x")
  have r: "res = Inl thrown \<and> x2 = x1"
    using signTypedData_outcome(3) [OF assms(1,2,3) final refl assms(4,5)] .
  have some: "app (world x) \<noteq> None"
    using LedgerSigner_retry_status [OF assms(3,4)] .
  from direct_calls [OF assms(3)] some obtain n where
    n: "0 < n" "new_calls x x1 = replicate n (SignEIP712Message path payload)"
    by blast
  have "\<not> list_ex is_hashed_call (new_calls x x1)"
    using n(2) by (simp add: list_ex_iff)
  then show ?thesis using final r n by blast
qed

text \<open>
  On a device with old firmware, a value that holds the name \<open>alice.eth\<close> is resolved, the
  direct request for the resolved value is refused with status 27904, and the hashing of
  the unresolved value throws. The resolved value would have hashed.
\<close>

theorem signTypedData_fallback_hashing_throws_witness:
  "resolveNames example_lib ''0xBA5E'' ''ty'' ''alice.eth'' = Inr (''0xBA5E'', ''0xA11CE'')
   \<and> getPayload example_lib ''0xBA5E'' ''ty'' ''0xA11CE'' = Inr ''0xBA5E|ty|0xA11CE''
   \<and> fst (LedgerSigner_retry
           (invoke (SignEIP712Message ''44'/60'/0'/0/0'' ''0xBA5E|ty|0xA11CE'')
              (eth_signEIP712Message old_firmware ''44'/60'/0'/0/0'' ''0xBA5E|ty|0xA11CE''))
           connected) = Inl unsupported
   \<and> statusCode unsupported = Some 27904
   \<and> fallback_request example_lib ''44'/60'/0'/0/0'' ''0xBA5E'' ''ty'' ''alice.eth'' =
       Inl invalid_address
   \<and> fallback_request example_lib ''44'/60'/0'/0/0'' ''0xBA5E'' ''ty'' ''0xA11CE'' =
       Inr (SignEIP712HashedMessage ''44'/60'/0'/0/0'' ''0xBA5E'' ''ty|0xA11CE'')
   \<and> fst (signTypedData example_lib old_firmware ''44'/60'/0'/0/0'' ''0xBA5E'' ''ty''
           ''alice.eth'' connected) = Inl invalid_address
   \<and> new_calls connected
        (snd (signTypedData example_lib old_firmware ''44'/60'/0'/0/0'' ''0xBA5E'' ''ty''
           ''alice.eth'' connected)) =
      [SignEIP712Message ''44'/60'/0'/0/0'' ''0xBA5E|ty|0xA11CE'']"
proof -
  let ?direct = "LedgerSigner_retry
           (invoke (SignEIP712Message ''44'/60'/0'/0/0'' ''0xBA5E|ty|0xA11CE'')
              (eth_signEIP712Message old_firmware ''44'/60'/0'/0/0'' ''0xBA5E|ty|0xA11CE''))
           connected"
  have rn: "resolveNames example_lib ''0xBA5E'' ''ty'' ''alice.eth'' =
              Inr (''0xBA5E'', ''0xA11CE'')"
    by (simp add: signer_eval)
  have gp: "getPayload example_lib ''0xBA5E'' ''ty'' ''0xA11CE'' = Inr ''0xBA5E|ty|0xA11CE''"
    by (simp add: signer_eval)
  have d1: "fst ?direct = Inl unsupported"
    by (simp add: signer_eval)
  then have d: "?direct = (Inl unsupported, snd ?direct)"
    by (metis prod.collapse)
  have st: "statusCode unsupported = Some 27904" by (simp add: unsupported_def)
  have fr: "fallback_request example_lib ''44'/60'/0'/0/0'' ''0xBA5E'' ''ty'' ''alice.eth'' =
       Inl invalid_address"
    by (simp add: signer_eval)
  have fr2: "fallback_request example_lib ''44'/60'/0'/0/0'' ''0xBA5E'' ''ty'' ''0xA11CE'' =
       Inr (SignEIP712HashedMessage ''44'/60'/0'/0/0'' ''0xBA5E'' ''ty|0xA11CE'')"
    by (simp add: signer_eval)
  have res: "fst (signTypedData example_lib old_firmware ''44'/60'/0'/0/0'' ''0xBA5E'' ''ty''
           ''alice.eth'' connected) = Inl invalid_address"
    using signTypedData_fallback_hashing_throws [OF rn gp d st fr] by simp
  have n: "new_calls connected
        (snd (signTypedData example_lib old_firmware ''44'/60'/0'/0/0'' ''0xBA5E'' ''ty''
           ''alice.eth'' connected)) =
      [SignEIP712Message ''44'/60'/0'/0/0'' ''0xBA5E|ty|0xA11CE'']"
    by (simp add: signer_eval)
  show ?thesis using rn gp d1 st fr fr2 res n by (intro conjI)
qed






section \<open>Properties of the shared device session\<close>

lemma session_inv_init: "session_inv (init paths)"
  by (simp add: session_inv_def init_def)

lemma session_inv_resume: "session_inv g \<Longrightarrow> session_inv (resume tid g)"
  unfolding session_inv_def resume_def set_task_def
  by (cases "tasks g tid") (auto split: sum.splits if_splits, blast+)

lemma session_inv_reject: "session_inv g \<Longrightarrow> session_inv (reject tid e g)"
  unfolding session_inv_def reject_def set_task_def
  by (cases "tasks g tid") (auto split: sum.splits if_splits)

lemma session_inv_step: "session_inv g \<Longrightarrow> session_inv (step ev g)"
  by (cases ev) (simp_all add: session_inv_resume session_inv_reject)

lemma run_snoc: "run (schedule @ [ev]) g = step ev (run schedule g)"
  by (simp add: run_def)

lemma run_Cons: "run (ev # schedule) g = run schedule (step ev g)"
  by (simp add: run_def)

lemma run_Nil: "run [] g = g"
  by (simp add: run_def)

lemma session_inv_run: "session_inv g \<Longrightarrow> session_inv (run schedule g)"
  by (induction schedule arbitrary: g) (simp_all add: run_Nil run_Cons session_inv_step)

lemma started_inv_init: "started_inv paths [] (init paths)"
  by (simp add: started_inv_def init_def)

lemma tasks_reject_NotStarted:
  "(tasks (reject t e g) tid = NotStarted path) = (tasks g tid = NotStarted path)"
  by (cases "tasks g t") (auto simp: reject_def set_task_def)

lemma createEthApp_reject: "createEthApp (reject t e g) = createEthApp g"
  by (cases "tasks g t") (auto simp: reject_def set_task_def)

lemma started_inv_reject:
  "started_inv paths schedule g \<Longrightarrow> started_inv paths (schedule @ [Reject t e]) (reject t e g)"
  by (simp add: started_inv_def tasks_reject_NotStarted createEthApp_reject)

lemma tasks_resume_other: "tid \<noteq> t \<Longrightarrow> tasks (resume t g) tid = tasks g tid"
  by (cases "tasks g t") (auto simp: resume_def set_task_def split: sum.splits)

lemma tasks_resume_started: "tasks (resume t g) t \<noteq> NotStarted path"
  by (cases "tasks g t") (auto simp: resume_def set_task_def split: sum.splits)

lemma createEthApp_resume:
  "createEthApp (resume t g) =
     (createEthApp g \<or> (\<exists>path parsed. tasks g t = NotStarted path \<and> parseBip32Path path = Inr parsed))"
  by (cases "tasks g t") (auto simp: resume_def set_task_def split: sum.splits)

lemma started_inv_resume:
  assumes "started_inv paths schedule g"
  shows "started_inv paths (schedule @ [Resume t]) (resume t g)"
proof -
  have a: "\<forall>tid. if Resume tid \<in> set (schedule @ [Resume t])
             then (\<forall>path. tasks (resume t g) tid \<noteq> NotStarted path)
             else tasks (resume t g) tid = NotStarted (paths tid)"
  proof
    fix tid
    show "if Resume tid \<in> set (schedule @ [Resume t])
             then (\<forall>path. tasks (resume t g) tid \<noteq> NotStarted path)
             else tasks (resume t g) tid = NotStarted (paths tid)"
    proof (cases "tid = t")
      case True
      then show ?thesis by (simp add: tasks_resume_started)
    next
      case False
      then show ?thesis using assms
        by (auto simp: started_inv_def tasks_resume_other)
    qed
  qed
  have b: "createEthApp (resume t g) \<longleftrightarrow>
           (\<exists>tid parsed. Resume tid \<in> set (schedule @ [Resume t])
              \<and> parseBip32Path (paths tid) = Inr parsed)"
  proof (cases "Resume t \<in> set schedule")
    case True
    then have "\<forall>path. tasks g t \<noteq> NotStarted path"
      using assms by (auto simp: started_inv_def split: if_splits)
    then show ?thesis using assms True
      by (auto simp: started_inv_def createEthApp_resume)
  next
    case False
    then have "tasks g t = NotStarted (paths t)"
      using assms by (auto simp: started_inv_def split: if_splits)
    then show ?thesis using assms
      by (auto simp: started_inv_def createEthApp_resume)
  qed
  show ?thesis unfolding started_inv_def using a b by blast
qed

lemma reachable_inv:
  "session_inv (run schedule (init paths)) \<and> started_inv paths schedule (run schedule (init paths))"
proof (induction schedule rule: rev_induct)
  case Nil
  show ?case by (simp add: run_Nil session_inv_init started_inv_init)
next
  case (snoc ev schedule)
  then show ?case
    by (cases ev)
       (simp_all add: run_snoc session_inv_resume session_inv_reject
          started_inv_resume started_inv_reject)
qed

text \<open>
  Claim C6, amended. Across any create calls in one process, in any interleaving,
  \<open>Transport.open\<close> is invoked at most once, and exactly once as soon as one create call
  whose path parses has been started; every caller that returns holds the handle built
  on that one transport.
\<close>

theorem create_opens_once:
  "opened (run schedule (init paths)) =
     (if \<exists>tid parsed. Resume tid \<in> set schedule \<and> parseBip32Path (paths tid) = Inr parsed
      then 1 else 0)
   \<and> (\<forall>tid sg. tasks (run schedule (init paths)) tid = Returned sg \<longrightarrow> signer_app sg = Some 1)"
  using reachable_inv [of schedule paths]
  unfolding session_inv_def started_inv_def by auto

text \<open>
  Claim C1, amended. Every caller of \<open>create\<close> that returns receives the shared handle,
  which is set; the caller that opened the transport returns only after
  \<open>getAppConfiguration\<close> has succeeded. Nothing is said of the liveness check for the other
  callers.
\<close>

theorem create_returned_handle:
  "tasks (run schedule (init paths)) tid = Returned sg \<Longrightarrow>
     signer_app sg = static_app (run schedule (init paths))
     \<and> signer_app sg \<noteq> None
     \<and> (initializer (run schedule (init paths)) = Some tid \<longrightarrow> live (run schedule (init paths)))"
  using reachable_inv [of schedule paths]
  unfolding session_inv_def by auto

lemma run_append: "run (xs @ ys) g = run ys (run xs g)"
  by (simp add: run_def)

lemma stuck_resume: "stuck g \<Longrightarrow> stuck (resume t g) \<and> opened (resume t g) = opened g"
  unfolding stuck_def resume_def set_task_def
  by (cases "tasks g t") (auto split: sum.splits)

lemma stuck_reject: "stuck g \<Longrightarrow> stuck (reject t e g) \<and> opened (reject t e g) = opened g"
  unfolding stuck_def reject_def set_task_def
  by (cases "tasks g t") auto

lemma stuck_step: "stuck g \<Longrightarrow> stuck (step ev g) \<and> opened (step ev g) = opened g"
  by (cases ev) (simp_all add: stuck_resume stuck_reject)

lemma tasks_reject_other: "tid \<noteq> t \<Longrightarrow> tasks (reject t e g) tid = tasks g tid"
  by (cases "tasks g t") (auto simp: reject_def set_task_def)

lemma polling_resume:
  assumes "stuck g" and "parseBip32Path path = Inr parsed"
    and "tasks g tid = polling_point path (normalized parsed) n"
  shows "tasks (resume tid g) tid = polling_point path (normalized parsed) (Suc n)"
  using assms unfolding stuck_def polling_point_def resume_def set_task_def
  by (auto split: if_splits)

lemma polling_reject:
  assumes "tasks g tid = polling_point path np n"
  shows "tasks (reject tid e g) tid = polling_point path np n"
  using assms unfolding polling_point_def reject_def set_task_def
  by (auto split: if_splits)

lemma polling_step:
  assumes "stuck g" and "parseBip32Path path = Inr parsed"
    and "tasks g tid = polling_point path (normalized parsed) n"
  shows "tasks (step ev g) tid =
         polling_point path (normalized parsed) (n + count_list [ev] (Resume tid))"
proof (cases ev)
  case (Resume t)
  then show ?thesis using assms polling_resume [OF assms]
    by (cases "t = tid") (simp_all add: tasks_resume_other)
next
  case (Reject t e)
  then show ?thesis using assms polling_reject [OF assms(3)]
    by (cases "t = tid") (simp_all add: tasks_reject_other)
qed

lemma polling_run:
  assumes "parseBip32Path path = Inr parsed"
  shows "stuck g \<Longrightarrow> tasks g tid = polling_point path (normalized parsed) n \<Longrightarrow>
         stuck (run schedule g) \<and> opened (run schedule g) = opened g
         \<and> tasks (run schedule g) tid =
             polling_point path (normalized parsed) (n + count_list schedule (Resume tid))"
proof (induction schedule arbitrary: g n)
  case Nil
  then show ?case by (simp add: run_Nil)
next
  case (Cons ev schedule)
  have s: "stuck (step ev g)" and o: "opened (step ev g) = opened g"
    using stuck_step [OF Cons.prems(1)] by auto
  have t: "tasks (step ev g) tid =
           polling_point path (normalized parsed) (n + count_list [ev] (Resume tid))"
    using polling_step [OF Cons.prems(1) assms Cons.prems(2)] .
  show ?case using Cons.IH [OF s t] o
    by (simp add: run_Cons add.assoc)
qed

lemma published_step:
  assumes "session_inv g" and "static_app g = Some 1"
  shows "static_app (step ev g) = Some 1 \<and> opened (step ev g) = opened g"
proof (cases ev)
  case (Resume t)
  have "\<forall>path. tasks g t \<noteq> AwaitOpen path" "createEthApp g"
    using assms unfolding session_inv_def by auto
  then show ?thesis using Resume assms(2)
    by (cases "tasks g t") (auto simp: resume_def set_task_def split: sum.splits)
next
  case (Reject t e)
  then show ?thesis using assms(2)
    by (cases "tasks g t") (auto simp: reject_def set_task_def)
qed

lemma immediate_step:
  assumes "session_inv g" and "static_app g = Some 1" and "parseBip32Path path = Inr parsed"
    and "tasks g tid = immediate_point path (normalized parsed) n"
  shows "tasks (step ev g) tid =
         immediate_point path (normalized parsed) (n + count_list [ev] (Resume tid))"
proof (cases ev)
  case (Resume t)
  have c: "createEthApp g" using assms unfolding session_inv_def by auto
  show ?thesis
  proof (cases "t = tid")
    case True
    then show ?thesis using Resume assms c
      by (auto simp: immediate_point_def resume_def set_task_def split: if_splits)
  next
    case False
    then show ?thesis using Resume assms by (simp add: tasks_resume_other)
  qed
next
  case (Reject t e)
  show ?thesis
  proof (cases "t = tid")
    case True
    then show ?thesis using Reject assms
      by (auto simp: immediate_point_def reject_def set_task_def split: if_splits)
  next
    case False
    then show ?thesis using Reject assms by (simp add: tasks_reject_other)
  qed
qed

lemma immediate_run:
  assumes "parseBip32Path path = Inr parsed"
  shows "session_inv g \<Longrightarrow> static_app g = Some 1 \<Longrightarrow>
         tasks g tid = immediate_point path (normalized parsed) n \<Longrightarrow>
         static_app (run schedule g) = Some 1 \<and> opened (run schedule g) = opened g
         \<and> tasks (run schedule g) tid =
             immediate_point path (normalized parsed) (n + count_list schedule (Resume tid))"
proof (induction schedule arbitrary: g n)
  case Nil
  then show ?case by (simp add: run_Nil)
next
  case (Cons ev schedule)
  have i: "session_inv (step ev g)" using Cons.prems(1) by (rule session_inv_step)
  have p: "static_app (step ev g) = Some 1" and o: "opened (step ev g) = opened g"
    using published_step [OF Cons.prems(1,2)] by auto
  have t: "tasks (step ev g) tid =
           immediate_point path (normalized parsed) (n + count_list [ev] (Resume tid))"
    using immediate_step [OF Cons.prems(1,2) assms Cons.prems(3)] .
  show ?case using Cons.IH [OF i p t] o
    by (simp add: run_Cons add.assoc)
qed

lemma reject_open_stuck:
  assumes "session_inv g" and "tasks g first = AwaitOpen p0"
  shows "stuck (reject first e g) \<and> opened (reject first e g) = 1"
proof -
  have i: "\<And>t path. tasks g t = AwaitOpen path \<Longrightarrow> initializer g = Some t"
    using assms(1) unfolding session_inv_def by blast
  have "static_app g = None" "createEthApp g" "opened g = 1"
    using assms unfolding session_inv_def by auto
  moreover have "\<forall>t path. tasks g t = AwaitOpen path \<longrightarrow> t = first"
    using i [OF assms(2)] i by fastforce
  ultimately show ?thesis using assms(2)
    by (auto simp: stuck_def reject_def set_task_def)
qed

lemma reject_config_published:
  assumes "session_inv g" and "tasks g first = AwaitConfig p0"
  shows "static_app (reject first e g) = Some 1 \<and> opened (reject first e g) = 1"
proof -
  have "static_app g = Some 1" "opened g = 1"
    using assms unfolding session_inv_def by (auto split: if_splits)
  then show ?thesis using assms(2)
    by (auto simp: reject_def set_task_def)
qed

text \<open>
  Claim C9, amended. Let the first create call throw, and let a later call with a valid
  path start afterwards. If the first call threw while opening the transport, the flag
  stays set and \<open>app\<close> stays unset for ever, the transport is never opened again, and the
  later call sleeps 1200 times and then throws the timeout error. If the first call threw
  in the liveness check, \<open>app\<close> is already set: the transport is never opened again
  either, and the later call returns the handle at once, without sleeping.
\<close>

theorem create_failed_initialization:
  assumes "tasks (run (before @ [Reject first error]) (init paths)) tid = NotStarted path"
    and "parseBip32Path path = Inr parsed"
  shows "(tasks (run before (init paths)) first = AwaitOpen p0 \<longrightarrow>
            createEthApp (run (before @ Reject first error # later) (init paths))
            \<and> static_app (run (before @ Reject first error # later) (init paths)) = None
            \<and> opened (run (before @ Reject first error # later) (init paths)) = 1
            \<and> tasks (run (before @ Reject first error # later) (init paths)) tid =
                polling_point path (normalized parsed) (count_list later (Resume tid)))
       \<and> (tasks (run before (init paths)) first = AwaitConfig p0 \<longrightarrow>
            static_app (run (before @ Reject first error # later) (init paths)) = Some 1
            \<and> opened (run (before @ Reject first error # later) (init paths)) = 1
            \<and> tasks (run (before @ Reject first error # later) (init paths)) tid =
                (if count_list later (Resume tid) = 0 then NotStarted path
                 else Returned \<lparr>signer_app = Some 1, signer_path = normalized parsed\<rparr>))"
proof -
  let ?g = "run before (init paths)"
  let ?h = "reject first error ?g"
  have inv: "session_inv ?g" using reachable_inv by blast
  have inv0: "session_inv ?h" using inv by (rule session_inv_reject)
  have g0: "run (before @ [Reject first error]) (init paths) = ?h"
    by (simp add: run_append run_Cons run_Nil)
  have after: "run (before @ Reject first error # later) (init paths) = run later ?h"
    by (simp add: run_append run_Cons)
  have t0: "tasks ?h tid = polling_point path (normalized parsed) 0"
    "tasks ?h tid = immediate_point path (normalized parsed) 0"
    using assms(1) g0 by (simp_all add: polling_point_def immediate_point_def)
  have a: ?thesis if "tasks ?g first = AwaitOpen p0"
  proof -
    have "stuck ?h" "opened ?h = 1"
      using reject_open_stuck [OF inv that] by auto
    then show ?thesis
      using polling_run [OF assms(2), of ?h tid 0 later] t0(1) that
      by (simp add: after stuck_def)
  qed
  have b: ?thesis if "tasks ?g first = AwaitConfig p0"
  proof -
    have "static_app ?h = Some 1" "opened ?h = 1"
      using reject_config_published [OF inv that] by auto
    then show ?thesis
      using immediate_run [OF assms(2) inv0, of tid 0 later] t0(2) that
      by (simp add: after immediate_point_def)
  qed
  show ?thesis using a b by auto
qed

lemma default_path_parses:
  "parseBip32Path ''m/44'/60'/0'/0/0'' =
     Inr \<lparr>normalized = ''44'/60'/0'/0/0'', indices = [2147483692, 2147483708, 2147483648, 0, 0]\<rparr>"
  by (simp add: parse_eval)

lemma solana_path_fails: "parseBip32Path (solana_paths tid) = Inl PathMustStartWithM"
  by (simp add: parseBip32Path_def solana_paths_def)

lemmas run_eval = run_def resume_def reject_def set_task_def init_def default_paths_def
  default_path_parses solana_path_fails

lemma count_list_replicate: "count_list (replicate n x) x = n"
  by (induction n) simp_all

text \<open>
  Claim C1 says no caller obtains a handle whose liveness check has not succeeded. The
  code assigns \<open>app\<close> before it awaits \<open>getAppConfiguration\<close>: a second caller that polls
  wakes up while the query is pending and returns the handle; the query then fails.
\<close>

theorem create_poller_gets_unchecked_handle:
  "tasks (run [Resume 0, Resume 1, Resume 0, Resume 1] (init default_paths)) 1 =
     Returned \<lparr>signer_app = Some 1, signer_path = ''44'/60'/0'/0/0''\<rparr>
   \<and> tasks (run [Resume 0, Resume 1, Resume 0, Resume 1] (init default_paths)) 0 =
     AwaitConfig ''44'/60'/0'/0/0''
   \<and> \<not> live (run [Resume 0, Resume 1, Resume 0, Resume 1] (init default_paths))
   \<and> tasks (run [Resume 0, Resume 1, Resume 0, Resume 1, Reject 0 device_locked]
        (init default_paths)) 0 = Threw (Thrown device_locked)
   \<and> \<not> live (run [Resume 0, Resume 1, Resume 0, Resume 1, Reject 0 device_locked]
        (init default_paths))"
  by (simp add: run_eval)

theorem create_returned_handle_witness:
  "tasks (run [Resume 0, Resume 0, Resume 0] (init default_paths)) 0 =
     Returned \<lparr>signer_app = Some 1, signer_path = ''44'/60'/0'/0/0''\<rparr>
   \<and> static_app (run [Resume 0, Resume 0, Resume 0] (init default_paths)) = Some 1
   \<and> initializer (run [Resume 0, Resume 0, Resume 0] (init default_paths)) = Some 0
   \<and> live (run [Resume 0, Resume 0, Resume 0] (init default_paths))"
proof -
  have r: "tasks (run [Resume 0, Resume 0, Resume 0] (init default_paths)) 0 =
     Returned \<lparr>signer_app = Some 1, signer_path = ''44'/60'/0'/0/0''\<rparr>"
    by (simp add: run_eval)
  have i: "initializer (run [Resume 0, Resume 0, Resume 0] (init default_paths)) = Some 0"
    by (simp add: run_eval)
  show ?thesis using create_returned_handle [OF r] r i by simp
qed

text \<open>
  Claim C6 says the transport is opened exactly once when at least one create call runs.
  \<open>create\<close> parses its path before it looks at the flag: a call with the path format the
  Solana signer documents, which has no root marker, throws and opens nothing.
\<close>

theorem create_invalid_path_opens_nothing:
  "tasks (run [Resume 0] (init solana_paths)) 0 = Threw (ParseFailed PathMustStartWithM)
   \<and> opened (run [Resume 0] (init solana_paths)) = 0"
  by (simp add: run_eval)

theorem create_opens_once_witness:
  "Resume 1 \<in> set [Resume 0, Resume 1, Resume 0, Resume 0, Resume 1]
   \<and> parseBip32Path (default_paths 1) =
     Inr \<lparr>normalized = ''44'/60'/0'/0/0'', indices = [2147483692, 2147483708, 2147483648, 0, 0]\<rparr>
   \<and> opened (run [Resume 0, Resume 1, Resume 0, Resume 0, Resume 1] (init default_paths)) = 1
   \<and> tasks (run [Resume 0, Resume 1, Resume 0, Resume 0, Resume 1] (init default_paths)) 1 =
     Returned \<lparr>signer_app = Some 1, signer_path = ''44'/60'/0'/0/0''\<rparr>"
proof -
  have s: "Resume 1 \<in> set [Resume 0, Resume 1, Resume 0, Resume 0, Resume 1]" by simp
  have p: "parseBip32Path (default_paths 1) =
     Inr \<lparr>normalized = ''44'/60'/0'/0/0'', indices = [2147483692, 2147483708, 2147483648, 0, 0]\<rparr>"
    by (simp add: default_paths_def default_path_parses)
  have e: "\<exists>tid parsed. Resume tid \<in> set [Resume 0, Resume 1, Resume 0, Resume 0, Resume 1]
      \<and> parseBip32Path (default_paths tid) = Inr parsed"
    using s p by blast
  have r: "tasks (run [Resume 0, Resume 1, Resume 0, Resume 0, Resume 1] (init default_paths)) 1 =
     Returned \<lparr>signer_app = Some 1, signer_path = ''44'/60'/0'/0/0''\<rparr>"
    by (simp add: run_eval)
  have o: "opened (run [Resume 0, Resume 1, Resume 0, Resume 0, Resume 1] (init default_paths)) = 1"
    using create_opens_once [of "[Resume 0, Resume 1, Resume 0, Resume 0, Resume 1]" default_paths] e
    by presburger
  show ?thesis using s p r o by simp
qed

text \<open>
  Claim C9 says that the handle is never published when the liveness check throws, and
  that every later call times out. The handle is assigned before the check: after a
  failed check a second call returns it at once.
\<close>

theorem create_late_caller_after_failed_check:
  "tasks (run [Resume 0, Resume 0, Reject 0 device_locked, Resume 1] (init default_paths)) 0 =
     Threw (Thrown device_locked)
   \<and> tasks (run [Resume 0, Resume 0, Reject 0 device_locked, Resume 1] (init default_paths)) 1 =
     Returned \<lparr>signer_app = Some 1, signer_path = ''44'/60'/0'/0/0''\<rparr>
   \<and> static_app (run [Resume 0, Resume 0, Reject 0 device_locked, Resume 1] (init default_paths)) =
     Some 1"
  by (simp add: run_eval)

theorem create_failed_initialization_witness:
  "tasks (run ([Resume 0] @ [Reject 0 device_locked]) (init default_paths)) 1 =
     NotStarted ''m/44'/60'/0'/0/0''
   \<and> tasks (run [Resume 0] (init default_paths)) 0 = AwaitOpen ''44'/60'/0'/0/0''
   \<and> tasks (run ([Resume 0] @ Reject 0 device_locked # replicate 1200 (Resume 1))
        (init default_paths)) 1 = AwaitSleep 1199 ''44'/60'/0'/0/0''
   \<and> tasks (run ([Resume 0] @ Reject 0 device_locked # replicate 1201 (Resume 1))
        (init default_paths)) 1 = Threw (Thrown open_timeout)
   \<and> opened (run ([Resume 0] @ Reject 0 device_locked # replicate 1201 (Resume 1))
        (init default_paths)) = 1
   \<and> tasks (run ([Resume 0, Resume 0] @ [Reject 0 device_locked]) (init default_paths)) 1 =
     NotStarted ''m/44'/60'/0'/0/0''
   \<and> tasks (run [Resume 0, Resume 0] (init default_paths)) 0 = AwaitConfig ''44'/60'/0'/0/0''
   \<and> tasks (run ([Resume 0, Resume 0] @ Reject 0 device_locked # [Resume 1])
        (init default_paths)) 1 =
     Returned \<lparr>signer_app = Some 1, signer_path = ''44'/60'/0'/0/0''\<rparr>"
proof -
  have n1: "tasks (run ([Resume 0] @ [Reject 0 device_locked]) (init default_paths)) 1 =
     NotStarted ''m/44'/60'/0'/0/0''"
    by (simp add: run_eval)
  have n2: "tasks (run ([Resume 0, Resume 0] @ [Reject 0 device_locked]) (init default_paths)) 1 =
     NotStarted ''m/44'/60'/0'/0/0''"
    by (simp add: run_eval)
  have a: "tasks (run [Resume 0] (init default_paths)) 0 = AwaitOpen ''44'/60'/0'/0/0''"
    by (simp add: run_eval)
  have c: "tasks (run [Resume 0, Resume 0] (init default_paths)) 0 = AwaitConfig ''44'/60'/0'/0/0''"
    by (simp add: run_eval)
  show ?thesis
    using create_failed_initialization [OF n1 default_path_parses, of "''44'/60'/0'/0/0''" "replicate 1200 (Resume 1)"]
      create_failed_initialization [OF n1 default_path_parses, of "''44'/60'/0'/0/0''" "replicate 1201 (Resume 1)"]
      create_failed_initialization [OF n2 default_path_parses, of "''44'/60'/0'/0/0''" "[Resume 1]"]
      n1 n2 a c
    by (simp add: count_list_replicate polling_point_def)
qed

end
